theory Spec2Isabelle
  imports Main "HOL-Library.Sublist"
begin

section \<open>Exceptions and message parts\<close>

text \<open>
  The tools are Python functions over the JSON dictionaries of the Gmail, Calendar and
  Tasks APIs. An exception is a value: an \<open>HttpError\<close> with the status of the response and
  its text, or any other \<open>Exception\<close> with its text (what \<open>str\<close> gives). A subscript on a
  missing key raises \<open>KeyError\<close>, whose text is the key in quotes.
\<close>

datatype exn = HttpError nat string | Exception string

definition KeyError :: "string \<Rightarrow> exn" where
  "KeyError k = Exception ([CHR 0x27] @ k @ [CHR 0x27])"

text \<open>
  A \<open>data\<close> entry is base64url text; the code only ever reads it through
  \<open>base64.urlsafe_b64decode\<close> (followed by \<open>.decode('utf-8')\<close> for a body). The model stores
  the outcome of that library call on the entry: the decoded text, or the fact that the call
  raises (the text of that exception is not modelled).
\<close>

datatype decoded = Text string | Undecodable

record part_body =
  data :: "decoded option"
  attachmentId :: "string option"
  size_b :: "int option"

text \<open>A message part; an absent dictionary key is \<open>None\<close>.\<close>

datatype part =
  Part (mimeType: "string option") (filename: "string option")
       (headers: "(string \<times> string) list option")
       (body: "part_body option") (parts: "part list option")

text \<open>\<open>payload.get('body', {})\<close> followed by the test \<open>'data' in ...\<close> and the read of it.\<close>

definition body_data :: "part \<Rightarrow> decoded option" where
  "body_data p = (case body p of None \<Rightarrow> None | Some b \<Rightarrow> data b)"

definition b64decode :: "decoded \<Rightarrow> exn + string" where
  "b64decode d = (case d of Text s \<Rightarrow> Inr s | Undecodable \<Rightarrow> Inl (Exception ''decode''))"

section \<open>The body extractor of \<open>get_email_details\<close>\<close>

text \<open>
  \<open>extract_body_recursive\<close> assigns to the two enclosing variables \<open>email_body_plain\<close> and
  \<open>email_body_html\<close>; the model passes the pair along. \<open>visit_body\<close> is the \<open>if 'mimeType' in payload\<close>
  block, \<open>extract_body_parts\<close> the \<open>for part in payload['parts']\<close> loop.
\<close>

definition visit_body :: "part \<Rightarrow> string \<times> string \<Rightarrow> exn + (string \<times> string)" where
  "visit_body p st =
     (case mimeType p of
        None \<Rightarrow> Inr st
      | Some mt \<Rightarrow>
          if mt = ''text/plain'' \<and> body_data p \<noteq> None then
            (case b64decode (the (body_data p)) of
               Inl e \<Rightarrow> Inl e | Inr s \<Rightarrow> Inr (s, snd st))
          else if mt = ''text/html'' \<and> body_data p \<noteq> None then
            (case b64decode (the (body_data p)) of
               Inl e \<Rightarrow> Inl e | Inr s \<Rightarrow> Inr (fst st, s))
          else Inr st)"

fun extract_body_recursive :: "part \<Rightarrow> string \<times> string \<Rightarrow> exn + (string \<times> string)"
  and extract_body_parts :: "part list \<Rightarrow> string \<times> string \<Rightarrow> exn + (string \<times> string)"
where
  "extract_body_recursive (Part mt fn hs b ps) st =
     (case visit_body (Part mt fn hs b ps) st of
        Inl e \<Rightarrow> Inl e
      | Inr st' \<Rightarrow> (case ps of None \<Rightarrow> Inr st' | Some l \<Rightarrow> extract_body_parts l st'))"
| "extract_body_parts [] st = Inr st"
| "extract_body_parts (p # l) st =
     (case extract_body_recursive p st of
        Inl e \<Rightarrow> Inl e
      | Inr st' \<Rightarrow> extract_body_parts l st')"

text \<open>
  The nodes of a tree in pre-order, and for each kind the \<open>data\<close> entries that the walk
  reads, in the order it reads them.
\<close>

fun preorder :: "part \<Rightarrow> part list"
  and preorder_parts :: "part list \<Rightarrow> part list"
where
  "preorder (Part mt fn hs b ps) =
     Part mt fn hs b ps # (case ps of None \<Rightarrow> [] | Some l \<Rightarrow> preorder_parts l)"
| "preorder_parts [] = []"
| "preorder_parts (p # l) = preorder p @ preorder_parts l"

definition plain_data :: "part \<Rightarrow> decoded list" where
  "plain_data t =
     List.map_filter (\<lambda>p. if mimeType p = Some ''text/plain'' then body_data p else None) (preorder t)"

definition html_data :: "part \<Rightarrow> decoded list" where
  "html_data t =
     List.map_filter (\<lambda>p. if mimeType p = Some ''text/html'' then body_data p else None) (preorder t)"

definition texts :: "decoded list \<Rightarrow> string list" where
  "texts ds = List.map_filter (\<lambda>d. case d of Text s \<Rightarrow> Some s | Undecodable \<Rightarrow> None) ds"

definition leaf :: "string \<Rightarrow> string \<Rightarrow> part" where
  "leaf mt s = Part (Some mt) None None (Some \<lparr>data = Some (Text s), attachmentId = None, size_b = None\<rparr>) None"

definition two_plain :: part where
  "two_plain = Part (Some ''multipart/mixed'') None None None
     (Some [leaf ''text/plain'' ''first'', leaf ''text/plain'' ''second''])"

section \<open>The walk as a fold over the pre-order\<close>

fun visit_all :: "part list \<Rightarrow> string \<times> string \<Rightarrow> exn + (string \<times> string)" where
  "visit_all [] st = Inr st"
| "visit_all (p # l) st = (case visit_body p st of Inl e \<Rightarrow> Inl e | Inr st' \<Rightarrow> visit_all l st')"

lemma visit_all_append:
  "visit_all (xs @ ys) st = (case visit_all xs st of Inl e \<Rightarrow> Inl e | Inr st' \<Rightarrow> visit_all ys st')"
  by (induction xs arbitrary: st) (auto split: sum.splits)

lemma extract_body_as_visit:
  "extract_body_recursive t st = visit_all (preorder t) st"
  "extract_body_parts l st = visit_all (preorder_parts l) st"
  by (induction t st and l st rule: extract_body_recursive_extract_body_parts.induct)
     (auto simp: visit_all_append split: sum.splits option.splits)

definition node_plain :: "part \<Rightarrow> decoded option" where
  "node_plain p = (if mimeType p = Some ''text/plain'' then body_data p else None)"

definition node_html :: "part \<Rightarrow> decoded option" where
  "node_html p = (if mimeType p = Some ''text/html'' then body_data p else None)"

lemma visit_body_cases:
  "visit_body p st =
     (case (node_plain p, node_html p) of
        (Some (Text s), _) \<Rightarrow> Inr (s, snd st)
      | (Some Undecodable, _) \<Rightarrow> Inl (Exception ''decode'')
      | (None, Some (Text s)) \<Rightarrow> Inr (fst st, s)
      | (None, Some Undecodable) \<Rightarrow> Inl (Exception ''decode'')
      | (None, None) \<Rightarrow> Inr st)"
  by (auto simp: visit_body_def node_plain_def node_html_def b64decode_def
           split: option.splits decoded.splits)

lemma node_excl: "node_plain p \<noteq> None \<Longrightarrow> node_html p = None"
  by (auto simp: node_plain_def node_html_def)

lemma visit_all_last:
  "visit_all ns st =
     (if Undecodable \<in> set (List.map_filter node_plain ns @ List.map_filter node_html ns)
      then Inl (Exception ''decode'')
      else Inr (last (fst st # texts (List.map_filter node_plain ns)),
                last (snd st # texts (List.map_filter node_html ns))))"
proof (induction ns arbitrary: st)
  case Nil
  show ?case by (simp add: List.map_filter_simps texts_def)
next
  case (Cons p ns)
  show ?case
  proof (cases "node_plain p")
    case None
    note np = this
    show ?thesis
    proof (cases "node_html p")
      case None
      with np show ?thesis
        by (simp add: visit_body_cases Cons.IH List.map_filter_simps)
    next
      case (Some d)
      with np show ?thesis
        by (cases d) (simp_all add: visit_body_cases Cons.IH List.map_filter_simps texts_def)
    qed
  next
    case (Some d)
    then have "node_html p = None" by (simp add: node_excl)
    with Some show ?thesis
      by (cases d) (simp_all add: visit_body_cases Cons.IH List.map_filter_simps texts_def)
  qed
qed

section \<open>Which occurrence of a body kind is kept\<close>

text \<open>
  C1, as stated (the first text/plain part of the walk is the one kept, later ones are
  ignored), does not hold of \<open>extract_body_recursive\<close>: on a message with two text/plain parts
  the walk reads ``first'' and then ``second'', and returns ``second''.
\<close>

theorem first_occurrence_counterexample:
  "texts (plain_data two_plain) = [''first'', ''second''] \<and>
   extract_body_recursive two_plain ('''', '''') = Inr (''second'', '''')"
  by (simp add: two_plain_def leaf_def plain_data_def texts_def List.map_filter_simps
        body_data_def visit_body_def b64decode_def)

text \<open>
  C1, amended: every text/plain (text/html) part with inline data is captured, whatever was
  captured before, so the last occurrence of each kind in pre-order is the one returned,
  a part of one kind never changes the other kind's capture, and a capture whose data
  cannot be decoded raises.
\<close>

theorem last_occurrence_wins:
  "extract_body_recursive t st =
     (if Undecodable \<in> set (plain_data t @ html_data t) then Inl (Exception ''decode'')
      else Inr (last (fst st # texts (plain_data t)), last (snd st # texts (html_data t))))"
  unfolding extract_body_as_visit visit_all_last plain_data_def html_data_def
    node_plain_def[abs_def] node_html_def[abs_def] ..

text \<open>
  The case of the specification's own test: a text/plain part at the top and a text/html
  part at depth 3 are both kept, since they are of different kinds.
\<close>

definition plain_then_deep_html :: part where
  "plain_then_deep_html =
     Part (Some ''multipart/mixed'') None None None
       (Some [leaf ''text/plain'' ''top'',
              Part (Some ''multipart/related'') None None None
                (Some [Part (Some ''multipart/alternative'') None None None
                         (Some [leaf ''text/html'' ''deep''])])])"

lemma plain_and_deep_html_both_kept:
  "extract_body_recursive plain_then_deep_html ([], []) = Inr (''top'', ''deep'')"
  by (simp add: plain_then_deep_html_def leaf_def body_data_def visit_body_def b64decode_def)

section \<open>Credentials\<close>

text \<open>
  Every tool module carries the same \<open>_get_credentials\<close>; the copies differ in the token file
  (\<open>token.json\<close>, \<open>token_calendar.json\<close>, \<open>token_tasks.json\<close>) and in \<open>SCOPES\<close> only, so the
  model takes the token path as an argument. Of a \<open>Credentials\<close> object of google-auth the
  model keeps the access token, the refresh token and whether the library reports it as
  \<open>expired\<close>; \<open>valid\<close> is the library's property: there is a token and it is not expired.
\<close>

record creds =
  token :: "string option"
  expired :: bool
  refresh_token :: "string option"

definition valid :: "creds \<Rightarrow> bool" where
  "valid c = (token c \<noteq> None \<and> \<not> expired c)"

text \<open>
  What leaves the process is logged: a call of the token endpoint, a run of the interactive
  flow, a write of a token file (path and text).
\<close>

datatype event = RefreshCall | InteractiveFlow | WriteToken string string

text \<open>
  The library calls are parameters of the model: parsing the text of a token file,
  \<open>creds.refresh(Request())\<close>, \<open>InstalledAppFlow.from_client_secrets_file\<close>,
  \<open>flow.run_local_server\<close>, \<open>creds.to_json()\<close>, and whether opening a file for writing raises.
\<close>

record cred_env =
  from_authorized_user_file :: "string \<Rightarrow> exn + creds"
  refresh :: "creds \<Rightarrow> exn + creds"
  from_client_secrets_file :: "exn option"
  run_local_server :: "exn + creds"
  to_json :: "creds \<Rightarrow> string"
  open_w :: "string \<Rightarrow> exn option"

record cred_state =
  files :: "string \<Rightarrow> string option"
  trace :: "event list"

text \<open>
  An exception that escapes \<open>_get_credentials\<close> is tagged with its origin: the interactive
  authorization, or the write of the token file. \<open>raw\<close> is the exception the caller sees.
\<close>

datatype cred_error = AuthorizationError exn | TokenWriteError exn

fun raw :: "cred_error \<Rightarrow> exn" where
  "raw (AuthorizationError e) = e"
| "raw (TokenWriteError e) = e"

text \<open>Python's truth value of an optional string: \<open>None\<close> and the empty string are false.\<close>

definition truthy :: "string option \<Rightarrow> bool" where
  "truthy v = (case v of None \<Rightarrow> False | Some s \<Rightarrow> s \<noteq> [])"

definition log_event :: "event \<Rightarrow> cred_state \<Rightarrow> cred_state" where
  "log_event ev s = s\<lparr>trace := trace s @ [ev]\<rparr>"

text \<open>
  \<open>load_token\<close>: the \<open>os.path.exists\<close> test and the guarded \<open>from_authorized_user_file\<close>.
  \<open>try_refresh\<close>: the \<open>if creds and creds.expired and creds.refresh_token\<close> block.
  \<open>run_flow\<close>: the \<open>if not creds\<close> block. \<open>write_token\<close>: the \<open>with open(...)\<close> block.
  \<open>renew\<close>: the body of \<open>if not creds or not creds.valid\<close>.
\<close>

definition load_token :: "string \<Rightarrow> cred_env \<Rightarrow> cred_state \<Rightarrow> creds option" where
  "load_token token_path env s =
     (case files s token_path of
        None \<Rightarrow> None
      | Some txt \<Rightarrow>
          (case from_authorized_user_file env txt of Inl e \<Rightarrow> None | Inr c \<Rightarrow> Some c))"

definition try_refresh :: "cred_env \<Rightarrow> creds option \<Rightarrow> cred_state \<Rightarrow> creds option \<times> cred_state" where
  "try_refresh env creds s =
     (case creds of
        None \<Rightarrow> (None, s)
      | Some c \<Rightarrow>
          if expired c \<and> truthy (refresh_token c) then
            (case refresh env c of
               Inl e \<Rightarrow> (None, log_event RefreshCall s)
             | Inr c' \<Rightarrow> (Some c', log_event RefreshCall s))
          else (Some c, s))"

definition run_flow :: "cred_env \<Rightarrow> cred_state \<Rightarrow> (cred_error + creds) \<times> cred_state" where
  "run_flow env s =
     (case from_client_secrets_file env of
        Some e \<Rightarrow> (Inl (AuthorizationError e), s)
      | None \<Rightarrow>
          (case run_local_server env of
             Inl e \<Rightarrow> (Inl (AuthorizationError e), log_event InteractiveFlow s)
           | Inr c \<Rightarrow> (Inr c, log_event InteractiveFlow s)))"

definition write_token ::
  "string \<Rightarrow> cred_env \<Rightarrow> creds \<Rightarrow> cred_state \<Rightarrow> (cred_error + creds) \<times> cred_state" where
  "write_token token_path env c s =
     (case open_w env token_path of
        Some e \<Rightarrow> (Inl (TokenWriteError e), s)
      | None \<Rightarrow>
          (Inr c, log_event (WriteToken token_path (to_json env c))
                    (s\<lparr>files := (files s)(token_path \<mapsto> to_json env c)\<rparr>)))"

definition renew ::
  "string \<Rightarrow> cred_env \<Rightarrow> creds option \<Rightarrow> cred_state \<Rightarrow> (cred_error + creds) \<times> cred_state" where
  "renew token_path env creds s =
     (case try_refresh env creds s of
        (creds1, s1) \<Rightarrow>
          (case (case creds1 of None \<Rightarrow> run_flow env s1 | Some c \<Rightarrow> (Inr c, s1)) of
             (Inl e, s2) \<Rightarrow> (Inl e, s2)
           | (Inr c, s2) \<Rightarrow> write_token token_path env c s2))"

definition get_credentials ::
  "string \<Rightarrow> cred_env \<Rightarrow> cred_state \<Rightarrow> (cred_error + creds) \<times> cred_state" where
  "get_credentials token_path env s =
     (case load_token token_path env s of
        None \<Rightarrow> renew token_path env None s
      | Some c \<Rightarrow> if valid c then (Inr c, s) else renew token_path env (Some c) s)"

text \<open>
  The path taken when there is no usable record: the interactive flow, then the write.
  \<open>flow_failure\<close> is the exception the flow raises, if it raises.
\<close>

definition authorize_and_persist ::
  "string \<Rightarrow> cred_env \<Rightarrow> cred_state \<Rightarrow> (cred_error + creds) \<times> cred_state" where
  "authorize_and_persist token_path env s =
     (case run_flow env s of
        (Inl e, s') \<Rightarrow> (Inl e, s')
      | (Inr c, s') \<Rightarrow> write_token token_path env c s')"

definition flow_failure :: "cred_env \<Rightarrow> exn option" where
  "flow_failure env =
     (case from_client_secrets_file env of
        Some e \<Rightarrow> Some e
      | None \<Rightarrow> (case run_local_server env of Inl e \<Rightarrow> Some e | Inr c \<Rightarrow> None))"



lemma run_flow_error:
  "run_flow env s = (Inl x, s') \<Longrightarrow> \<exists>e. x = AuthorizationError e \<and> flow_failure env = Some e"
  by (auto simp: run_flow_def flow_failure_def split: option.splits sum.splits)


lemma authorize_error:
  "fst (authorize_and_persist p env s) = Inl (AuthorizationError e) \<Longrightarrow> flow_failure env = Some e"
  by (auto simp: authorize_and_persist_def write_token_def split: prod.splits sum.splits option.splits
           dest: run_flow_error)



text \<open>
  Records, environments and states for the concrete cases below: the token endpoint
  rejects the refresh (\<open>revoked_env\<close>), the user refuses consent (\<open>denied_env\<close>), the
  refresh succeeds (\<open>refreshing_env\<close>).
\<close>

definition cached_record :: creds where
  "cached_record = \<lparr>token = Some ''ya29.cached'', expired = False, refresh_token = Some ''1//r''\<rparr>"

definition stale_record :: creds where
  "stale_record = \<lparr>token = Some ''ya29.stale'', expired = True, refresh_token = Some ''1//r''\<rparr>"

definition fresh_record :: creds where
  "fresh_record = \<lparr>token = Some ''ya29.fresh'', expired = False, refresh_token = Some ''1//n''\<rparr>"

definition revoked_env :: cred_env where
  "revoked_env =
     \<lparr>from_authorized_user_file =
        (\<lambda>txt. if txt = ''cached'' then Inr cached_record
              else if txt = ''stale'' then Inr stale_record
              else Inl (Exception ''Expecting value'')),
      refresh = (\<lambda>c. Inl (Exception ''invalid_grant'')),
      from_client_secrets_file = None,
      run_local_server = Inr fresh_record,
      to_json = (\<lambda>c. case token c of None \<Rightarrow> [] | Some t \<Rightarrow> t),
      open_w = (\<lambda>p. None)\<rparr>"


definition token_file :: "string option \<Rightarrow> cred_state" where
  "token_file txt = \<lparr>files = (\<lambda>p. if p = ''token.json'' then txt else None), trace = []\<rparr>"

definition refreshing_env :: cred_env where
  "refreshing_env = revoked_env\<lparr>refresh := (\<lambda>c. Inr fresh_record)\<rparr>"

definition refreshed_state :: cred_state where
  "refreshed_state =
     \<lparr>files = (\<lambda>p. if p = ''token.json'' then Some ''ya29.fresh'' else None),
      trace = [RefreshCall, WriteToken ''token.json'' ''ya29.fresh'']\<rparr>"



lemma write_token_result:
  "write_token p env c s = (Inr c', s') \<Longrightarrow>
   c' = c \<and> files s' p = Some (to_json env c) \<and>
   trace s' = trace s @ [WriteToken p (to_json env c)]"
  by (auto simp: write_token_def log_event_def split: option.splits)

lemma try_refresh_trace:
  "try_refresh env creds s = (creds1, s1) \<Longrightarrow> \<exists>evs. trace s1 = trace s @ evs"
  by (auto simp: try_refresh_def log_event_def split: option.splits if_splits sum.splits)

lemma run_flow_trace:
  "run_flow env s = (r, s1) \<Longrightarrow> \<exists>evs. trace s1 = trace s @ evs"
  by (auto simp: run_flow_def log_event_def split: option.splits sum.splits)

lemma renew_persists:
  assumes "renew p env creds s = (Inr c, s')"
  shows "files s' p = Some (to_json env c) \<and>
         (\<exists>evs. trace s' = trace s @ evs @ [WriteToken p (to_json env c)])"
proof -
  obtain creds1 s1 where t: "try_refresh env creds s = (creds1, s1)"
    by (cases "try_refresh env creds s")
  obtain evs1 where e1: "trace s1 = trace s @ evs1" using try_refresh_trace[OF t] by blast
  obtain r s2 where m: "(case creds1 of None \<Rightarrow> run_flow env s1 | Some c \<Rightarrow> (Inr c, s1)) = (r, s2)"
    by (cases "(case creds1 of None \<Rightarrow> run_flow env s1 | Some c \<Rightarrow> (Inr c, s1))")
  have "\<exists>evs2. trace s2 = trace s1 @ evs2"
    using m by (cases creds1) (auto dest: run_flow_trace)
  then obtain evs2 where e2: "trace s2 = trace s1 @ evs2" by blast
  from assms t m obtain c0 where r: "r = Inr c0" and w: "write_token p env c0 s2 = (Inr c, s')"
    by (cases r) (auto simp: renew_def)
  from write_token_result[OF w] e1 e2 show ?thesis by auto
qed

text \<open>
  C6. A record is returned either from the valid cached record with nothing done, or after
  it has been written to the token file of this scope set, the write being the last thing
  done before the return.
\<close>

theorem new_record_persisted_before_return:
  assumes "get_credentials p env s = (Inr c, s')"
  shows "(load_token p env s = Some c \<and> valid c \<and> s' = s) \<or>
         (files s' p = Some (to_json env c) \<and>
          (\<exists>evs. trace s' = trace s @ evs @ [WriteToken p (to_json env c)]))"
  using assms
  by (auto simp: get_credentials_def split: option.splits if_splits dest: renew_persists)

theorem new_record_persisted_before_return_witness:
  "get_credentials ''token.json'' refreshing_env (token_file (Some ''stale'')) =
     (Inr fresh_record, refreshed_state) \<and>
   ((load_token ''token.json'' refreshing_env (token_file (Some ''stale'')) = Some fresh_record \<and>
     valid fresh_record \<and> refreshed_state = token_file (Some ''stale'')) \<or>
    (files refreshed_state ''token.json'' = Some (to_json refreshing_env fresh_record) \<and>
     (\<exists>evs. trace refreshed_state =
         trace (token_file (Some ''stale'')) @ evs @
           [WriteToken ''token.json'' (to_json refreshing_env fresh_record)])))"
proof -
  have h: "get_credentials ''token.json'' refreshing_env (token_file (Some ''stale'')) =
     (Inr fresh_record, refreshed_state)"
    by (auto simp add: get_credentials_def load_token_def renew_def try_refresh_def write_token_def
          token_file_def refreshing_env_def revoked_env_def stale_record_def fresh_record_def
          truthy_def log_event_def fun_eq_iff refreshed_state_def valid_def)
  show ?thesis
    using h new_record_persisted_before_return[OF h] by blast
qed

text \<open>
  C9. A token file that loads into a record with an access token that is not expired is
  returned as loaded; the files and the log are untouched (nothing written, no refresh, no
  flow), so a second call returns the same record from the same state.
\<close>

theorem valid_record_returned_unchanged:
  assumes "files s p = Some json" and "from_authorized_user_file env json = Inr c"
    and "token c \<noteq> None" and "\<not> expired c"
  shows "get_credentials p env s = (Inr c, s) \<and>
         get_credentials p env (snd (get_credentials p env s)) = (Inr c, s)"
  using assms by (simp add: get_credentials_def load_token_def valid_def)

theorem valid_record_returned_unchanged_witness:
  "files (token_file (Some ''cached'')) ''token.json'' = Some ''cached'' \<and>
   from_authorized_user_file revoked_env ''cached'' = Inr cached_record \<and>
   token cached_record \<noteq> None \<and> \<not> expired cached_record \<and>
   get_credentials ''token.json'' revoked_env (token_file (Some ''cached'')) =
     (Inr cached_record, token_file (Some ''cached'')) \<and>
   get_credentials ''token.json'' revoked_env
     (snd (get_credentials ''token.json'' revoked_env (token_file (Some ''cached'')))) =
     (Inr cached_record, token_file (Some ''cached''))"
proof -
  have h1: "files (token_file (Some ''cached'')) ''token.json'' = Some ''cached''"
    by (simp add: token_file_def)
  have h2: "from_authorized_user_file revoked_env ''cached'' = Inr cached_record"
    by (simp add: revoked_env_def)
  have h3: "token cached_record \<noteq> None"
    by (simp add: cached_record_def)
  have h4: "\<not> expired cached_record"
    by (simp add: cached_record_def)
  show ?thesis
    using h1 h2 h3 h4 valid_record_returned_unchanged[OF h1 h2 h3 h4] by simp
qed

section \<open>The attachment file server\<close>

text \<open>Python's \<open>str\<close> of a non-negative integer, and of an exception.\<close>

definition digit_char :: "nat \<Rightarrow> char" where
  "digit_char d = ''0123456789'' ! d"

function str_nat :: "nat \<Rightarrow> string" where
  "str_nat n = (if n < 10 then [digit_char n] else str_nat (n div 10) @ [digit_char (n mod 10)])"
  by pat_completeness auto
termination
  by (relation "measure id") auto

declare str_nat.simps [simp del]

fun str_exn :: "exn \<Rightarrow> string" where
  "str_exn (HttpError status text) = text"
| "str_exn (Exception text) = text"

text \<open>
  The network as \<open>_start_file_server\<close> sees it: the ports on which another process accepts
  connections, what binding an \<open>HTTPServer\<close> to a port raises (if it raises), the listeners
  this process has bound (port and served directory), and the log of the connection
  attempts of \<open>_is_port_in_use\<close>. The module globals are a record; an \<open>HTTPServer\<close> object
  is its port and directory, a thread is whether it is alive. Creating and starting the
  thread is taken to succeed.
\<close>

record net =
  in_use :: "nat list"
  bind_error :: "nat \<Rightarrow> exn option"
  listeners :: "(nat \<times> string) list"
  connects :: "nat list"

record server_globals =
  file_server :: "(nat \<times> string) option"
  file_server_thread :: "bool option"
  download_path :: "string option"
  FILE_SERVER_PORT :: nat

definition initial_globals :: server_globals where
  "initial_globals =
     \<lparr>file_server = None, file_server_thread = None, download_path = None, FILE_SERVER_PORT = 8000\<rparr>"

text \<open>\<open>connect_ex\<close> returns 0 on a port when somebody listens there.\<close>

definition occupied :: "net \<Rightarrow> nat \<Rightarrow> bool" where
  "occupied w port = (port \<in> set (in_use w) \<or> port \<in> set (map fst (listeners w)))"

definition is_port_in_use :: "net \<Rightarrow> nat \<Rightarrow> bool \<times> net" where
  "is_port_in_use w port = (occupied w port, w\<lparr>connects := connects w @ [port]\<rparr>)"

text \<open>The loop \<open>while _is_port_in_use(port) and port < max_port: port += 1\<close>.\<close>

function probe :: "net \<Rightarrow> nat \<Rightarrow> nat \<Rightarrow> nat \<times> net" where
  "probe w port max_port =
     (case is_port_in_use w port of
        (busy, w') \<Rightarrow> if busy \<and> port < max_port then probe w' (port + 1) max_port else (port, w'))"
  by pat_completeness auto
termination
  by (relation "measure (\<lambda>(w, port, max_port). max_port - port)") auto

declare probe.simps [simp del]

text \<open>
  The singleton test, then the rest of the function (\<open>start_new\<close>): probing, the
  \<open>port >= max_port\<close> error, the bind inside \<open>try\<close>, the update of the globals.
\<close>

definition is_running :: "server_globals \<Rightarrow> string \<Rightarrow> bool" where
  "is_running g dp =
     (file_server g \<noteq> None \<and> file_server_thread g = Some True \<and> download_path g = Some dp)"

definition start_new ::
  "net \<Rightarrow> server_globals \<Rightarrow> string \<Rightarrow> (exn + (nat \<times> string) \<times> nat) \<times> net \<times> server_globals" where
  "start_new w g dp =
     (let max_port = FILE_SERVER_PORT g + 10 in
      case probe w (FILE_SERVER_PORT g) max_port of
        (port, w1) \<Rightarrow>
          if port \<ge> max_port then
            (Inl (Exception (''Could not find available port between '' @
                    str_nat (FILE_SERVER_PORT g) @ '' and '' @ str_nat max_port)), w1, g)
          else
            (case bind_error w1 port of
               Some e \<Rightarrow>
                 (Inl (Exception (''Could not start file server on port '' @ str_nat port @
                         '': '' @ str_exn e)), w1, g)
             | None \<Rightarrow>
                 (Inr ((port, dp), port),
                  w1\<lparr>listeners := listeners w1 @ [(port, dp)]\<rparr>,
                  g\<lparr>file_server := Some (port, dp), file_server_thread := Some True,
                    download_path := Some dp, FILE_SERVER_PORT := port\<rparr>)))"

definition start_file_server ::
  "net \<Rightarrow> server_globals \<Rightarrow> string \<Rightarrow> (exn + (nat \<times> string) \<times> nat) \<times> net \<times> server_globals" where
  "start_file_server w g dp =
     (case file_server g of
        Some server \<Rightarrow>
          if file_server_thread g = Some True \<and> download_path g = Some dp
          then (Inr (server, FILE_SERVER_PORT g), w, g)
          else start_new w g dp
      | None \<Rightarrow> start_new w g dp)"

lemma occupied_connects [simp]: "occupied (w\<lparr>connects := cs\<rparr>) p = occupied w p"
  by (simp add: occupied_def)

lemma probe_skip:
  "(\<And>p. b \<le> p \<Longrightarrow> p < b + k \<Longrightarrow> occupied w p) \<Longrightarrow> b + k \<le> m \<Longrightarrow>
   probe w b m = probe (w\<lparr>connects := connects w @ [b..<b + k]\<rparr>) (b + k) m"
proof (induction k arbitrary: b w)
  case 0
  then show ?case by simp
next
  case (Suc k)
  have "occupied w b" using Suc.prems(1)[of b] by simp
  moreover have "b < m" using Suc.prems(2) by simp
  ultimately have s1: "probe w b m = probe (w\<lparr>connects := connects w @ [b]\<rparr>) (Suc b) m"
    by (subst probe.simps) (simp add: is_port_in_use_def)
  have s2: "probe (w\<lparr>connects := connects w @ [b]\<rparr>) (Suc b) m =
      probe (w\<lparr>connects := connects w @ [b]\<rparr>\<lparr>connects := connects (w\<lparr>connects := connects w @ [b]\<rparr>) @ [Suc b..<Suc b + k]\<rparr>) (Suc b + k) m"
    using Suc.prems by (intro Suc.IH) auto
  have s3: "[b] @ [Suc b..<Suc b + k] = [b..<b + Suc k]"
    by (simp add: upt_conv_Cons)
  show ?case using s1 s2 s3 by simp
qed

lemma probe_stop:
  "\<not> occupied w p \<or> \<not> p < m \<Longrightarrow> probe w p m = (p, w\<lparr>connects := connects w @ [p]\<rparr>)"
  by (subst probe.simps) (auto simp add: is_port_in_use_def)

lemma probe_first_free:
  assumes "\<And>p. b \<le> p \<Longrightarrow> p < b + k \<Longrightarrow> occupied w p" and "\<not> occupied w (b + k) \<or> k = n"
    and "k \<le> n"
  shows "probe w b (b + n) = (b + k, w\<lparr>connects := connects w @ [b..<b + k + 1]\<rparr>)"
proof -
  have "probe w b (b + n) = probe (w\<lparr>connects := connects w @ [b..<b + k]\<rparr>) (b + k) (b + n)"
    using assms by (intro probe_skip) auto
  also have "\<dots> = (b + k, w\<lparr>connects := connects w @ [b..<b + k]\<rparr>\<lparr>connects := connects (w\<lparr>connects := connects w @ [b..<b + k]\<rparr>) @ [b + k]\<rparr>)"
    using assms(2) by (intro probe_stop) auto
  finally show ?thesis by simp
qed

lemma probe_result:
  "probe w b m = (p, w') \<Longrightarrow>
   b \<le> p \<and> (p < m \<longrightarrow> \<not> occupied w p) \<and>
   (\<exists>cs. w' = w\<lparr>connects := connects w @ cs\<rparr>)"
proof (induction w b m arbitrary: p w' rule: probe.induct)
  case (1 w port max_port)
  show ?case
  proof (cases "occupied w port \<and> port < max_port")
    case True
    then have e: "probe (w\<lparr>connects := connects w @ [port]\<rparr>) (port + 1) max_port = (p, w')"
      using "1.prems" by (subst (asm) probe.simps) (simp add: is_port_in_use_def)
    have i: "(occupied w port, w\<lparr>connects := connects w @ [port]\<rparr>) = is_port_in_use w port"
      by (simp add: is_port_in_use_def)
    have "port + 1 \<le> p \<and> (p < max_port \<longrightarrow> \<not> occupied (w\<lparr>connects := connects w @ [port]\<rparr>) p) \<and>
      (\<exists>cs. w' = w\<lparr>connects := connects w @ [port]\<rparr>\<lparr>connects := connects (w\<lparr>connects := connects w @ [port]\<rparr>) @ cs\<rparr>)"
      using True by (intro "1.IH"[OF i _ e]) auto
    then show ?thesis by auto
  next
    case False
    then have "(p, w') = (port, w\<lparr>connects := connects w @ [port]\<rparr>)"
      using "1.prems" probe_stop[of w port max_port] by auto
    with False show ?thesis by auto
  qed
qed

definition quiet_net :: net where
  "quiet_net = \<lparr>in_use = [], bind_error = (\<lambda>p. None), listeners = [], connects = []\<rparr>"

lemma start_not_running: "\<not> is_running g dp \<Longrightarrow> start_file_server w g dp = start_new w g dp"
  by (auto simp: start_file_server_def is_running_def split: option.splits)

lemma start_file_server_probe:
  assumes "\<not> is_running g dp"
    and "\<forall>p. FILE_SERVER_PORT g \<le> p \<and> p < FILE_SERVER_PORT g + k \<longrightarrow> occupied w p"
    and "k \<le> 10" and "k < 10 \<longrightarrow> \<not> occupied w (FILE_SERVER_PORT g + k)"
  shows "start_file_server w g dp =
     (let b = FILE_SERVER_PORT g; w1 = w\<lparr>connects := connects w @ [b..<b + k + 1]\<rparr> in
      if k = 10 then
        (Inl (Exception (''Could not find available port between '' @
                str_nat b @ '' and '' @ str_nat (b + 10))), w1, g)
      else
        (case bind_error w (b + k) of
           Some e \<Rightarrow>
             (Inl (Exception (''Could not start file server on port '' @ str_nat (b + k) @
                     '': '' @ str_exn e)), w1, g)
         | None \<Rightarrow>
             (Inr ((b + k, dp), b + k),
              w1\<lparr>listeners := listeners w @ [(b + k, dp)]\<rparr>,
              g\<lparr>file_server := Some (b + k, dp), file_server_thread := Some True,
                download_path := Some dp, FILE_SERVER_PORT := b + k\<rparr>)))"
proof -
  have p: "probe w (FILE_SERVER_PORT g) (FILE_SERVER_PORT g + 10) =
      (FILE_SERVER_PORT g + k,
       w\<lparr>connects := connects w @ [FILE_SERVER_PORT g..<FILE_SERVER_PORT g + k + 1]\<rparr>)"
    using assms(2,3,4) by (intro probe_first_free) auto
  show ?thesis
    using assms(3)
    by (simp add: start_not_running[OF assms(1)] start_new_def p Let_def split: option.splits)
qed

text \<open>
  Three worlds: ports 8000 to 8002 taken by other processes; ports 8000 to 8009 taken; and,
  after a start that bound 8003 for \<open>/srv/downloads\<close>, the same machine once the other
  processes have gone (the log of connection attempts started afresh). In \<open>refusing_net\<close>
  nobody listens on 8000 but binding it raises.
\<close>

definition busy3 :: net where "busy3 = quiet_net\<lparr>in_use := [8000, 8001, 8002]\<rparr>"
definition busy10 :: net where "busy10 = quiet_net\<lparr>in_use := [8000..<8010]\<rparr>"

definition started_8003_globals :: server_globals where
  "started_8003_globals =
     \<lparr>file_server = Some (8003, ''/srv/downloads''), file_server_thread = Some True,
      download_path = Some ''/srv/downloads'', FILE_SERVER_PORT = 8003\<rparr>"

definition later_net :: net where
  "later_net = quiet_net\<lparr>listeners := [(8003, ''/srv/downloads'')]\<rparr>"

definition refusing_net :: net where
  "refusing_net =
     quiet_net\<lparr>bind_error :=
       (\<lambda>p. if p = 8000 then Some (Exception ''[Errno 98] Address already in use'') else None)\<rparr>"

lemma upt_8000_8004: "[8000..<8004] = [8000, 8001, 8002, 8003::nat]"
  by (simp add: upt_rec)

lemma str_ports: "str_nat 8000 = ''8000''" "str_nat 8010 = ''8010''"
  by (simp_all add: str_nat.simps digit_char_def)

lemma first_start_8003:
  "start_file_server busy3 initial_globals ''/srv/downloads'' =
     (Inr ((8003, ''/srv/downloads''), 8003),
      busy3\<lparr>connects := [8000, 8001, 8002, 8003], listeners := [(8003, ''/srv/downloads'')]\<rparr>,
      started_8003_globals)"
proof -
  have r: "\<not> is_running initial_globals ''/srv/downloads''"
    by (simp add: is_running_def initial_globals_def)
  have o: "\<forall>p. FILE_SERVER_PORT initial_globals \<le> p \<and> p < FILE_SERVER_PORT initial_globals + 3 \<longrightarrow> occupied busy3 p"
    by (auto simp: initial_globals_def occupied_def busy3_def quiet_net_def)
  have f: "(3::nat) < 10 \<longrightarrow> \<not> occupied busy3 (FILE_SERVER_PORT initial_globals + 3)"
    by (simp add: initial_globals_def occupied_def busy3_def quiet_net_def)
  show ?thesis
    using start_file_server_probe[OF r o _ f]
    by (simp add: initial_globals_def busy3_def quiet_net_def upt_8000_8004 started_8003_globals_def)
qed

lemma second_start_8004:
  "start_file_server later_net started_8003_globals ''/srv/other'' =
     (Inr ((8004, ''/srv/other''), 8004),
      later_net\<lparr>connects := [8003, 8004],
                 listeners := [(8003, ''/srv/downloads''), (8004, ''/srv/other'')]\<rparr>,
      \<lparr>file_server = Some (8004, ''/srv/other''), file_server_thread = Some True,
        download_path = Some ''/srv/other'', FILE_SERVER_PORT = 8004\<rparr>)"
proof -
  have r: "\<not> is_running started_8003_globals ''/srv/other''"
    by (simp add: is_running_def started_8003_globals_def)
  have o: "\<forall>p. FILE_SERVER_PORT started_8003_globals \<le> p \<and>
      p < FILE_SERVER_PORT started_8003_globals + 1 \<longrightarrow> occupied later_net p"
    by (auto simp: started_8003_globals_def occupied_def later_net_def quiet_net_def)
  have f: "(1::nat) < 10 \<longrightarrow> \<not> occupied later_net (FILE_SERVER_PORT started_8003_globals + 1)"
    by (simp add: started_8003_globals_def occupied_def later_net_def quiet_net_def)
  have u: "[8003..<8005] = [8003, 8004::nat]"
    by (simp add: upt_rec)
  show ?thesis
    using start_file_server_probe[OF r o _ f]
    by (simp add: started_8003_globals_def later_net_def quiet_net_def u)
qed

lemma refused_start:
  "start_file_server refusing_net initial_globals ''/srv/downloads'' =
     (Inl (Exception
        ''Could not start file server on port 8000: [Errno 98] Address already in use''),
      refusing_net\<lparr>connects := [8000]\<rparr>, initial_globals)"
proof -
  have r: "\<not> is_running initial_globals ''/srv/downloads''"
    by (simp add: is_running_def initial_globals_def)
  have o: "\<forall>p. FILE_SERVER_PORT initial_globals \<le> p \<and> p < FILE_SERVER_PORT initial_globals + 0 \<longrightarrow> occupied refusing_net p"
    by auto
  have f: "(0::nat) < 10 \<longrightarrow> \<not> occupied refusing_net (FILE_SERVER_PORT initial_globals + 0)"
    by (simp add: initial_globals_def occupied_def refusing_net_def quiet_net_def)
  have p: "FILE_SERVER_PORT initial_globals = 8000"
    by (simp add: initial_globals_def)
  have b: "bind_error refusing_net 8000 = Some (Exception ''[Errno 98] Address already in use'')"
    "connects refusing_net = []"
    by (simp_all add: refusing_net_def quiet_net_def)
  show ?thesis
    using start_file_server_probe[OF r o _ f]
    by (simp add: p b str_ports)
qed

text \<open>
  C4, as stated, does not hold. The base is not fixed: a start that binds 8003 stores 8003 in
  \<open>FILE_SERVER_PORT\<close>, and the next negotiation (here for another directory) begins there; it
  never tries the free port 8000 and binds 8004. And the first candidate that refuses the
  connection is not always bound: when binding it raises, the call fails, binds nothing
  and tries no other port.
\<close>

theorem fixed_base_counterexample:
  "start_file_server busy3 initial_globals ''/srv/downloads'' =
     (Inr ((8003, ''/srv/downloads''), 8003),
      busy3\<lparr>connects := [8000, 8001, 8002, 8003], listeners := [(8003, ''/srv/downloads'')]\<rparr>,
      started_8003_globals) \<and>
   \<not> occupied later_net 8000 \<and>
   start_file_server later_net started_8003_globals ''/srv/other'' =
     (Inr ((8004, ''/srv/other''), 8004),
      later_net\<lparr>connects := [8003, 8004],
                 listeners := [(8003, ''/srv/downloads''), (8004, ''/srv/other'')]\<rparr>,
      \<lparr>file_server = Some (8004, ''/srv/other''), file_server_thread = Some True,
        download_path = Some ''/srv/other'', FILE_SERVER_PORT = 8004\<rparr>) \<and>
   \<not> occupied refusing_net 8000 \<and>
   start_file_server refusing_net initial_globals ''/srv/downloads'' =
     (Inl (Exception
        ''Could not start file server on port 8000: [Errno 98] Address already in use''),
      refusing_net\<lparr>connects := [8000]\<rparr>, initial_globals)"
  using first_start_8003 second_start_8004 refused_start
  by (simp add: occupied_def later_net_def refusing_net_def quiet_net_def)

text \<open>
  C4, amended: a negotiation starts from the current \<open>FILE_SERVER_PORT\<close>, which is 8000 when
  the module is loaded and the port of the last successful start afterwards, and tries the
  candidates in increasing order, one connection attempt each. If the first \<open>k < 10\<close>
  candidates are occupied and the next is not, it binds candidate \<open>k + 1\<close> and makes it the
  new \<open>FILE_SERVER_PORT\<close>, unless binding raises: then the call fails, nothing is bound and
  no other port is tried. If all 10 candidates are occupied the call fails and binds no
  listener.
\<close>

theorem port_negotiation:
  assumes "\<not> is_running g dp"
    and "\<forall>p. FILE_SERVER_PORT g \<le> p \<and> p < FILE_SERVER_PORT g + k \<longrightarrow> occupied w p"
    and "k \<le> 10" and "k < 10 \<longrightarrow> \<not> occupied w (FILE_SERVER_PORT g + k)"
  shows "FILE_SERVER_PORT initial_globals = 8000 \<and>
    start_file_server w g dp =
     (let b = FILE_SERVER_PORT g; w1 = w\<lparr>connects := connects w @ [b..<b + k + 1]\<rparr> in
      if k = 10 then
        (Inl (Exception (''Could not find available port between '' @
                str_nat b @ '' and '' @ str_nat (b + 10))), w1, g)
      else
        (case bind_error w (b + k) of
           Some e \<Rightarrow>
             (Inl (Exception (''Could not start file server on port '' @ str_nat (b + k) @
                     '': '' @ str_exn e)), w1, g)
         | None \<Rightarrow>
             (Inr ((b + k, dp), b + k),
              w1\<lparr>listeners := listeners w @ [(b + k, dp)]\<rparr>,
              g\<lparr>file_server := Some (b + k, dp), file_server_thread := Some True,
                download_path := Some dp, FILE_SERVER_PORT := b + k\<rparr>)))"
  using start_file_server_probe[OF assms] by (simp add: initial_globals_def)

theorem port_negotiation_witness:
  "start_file_server busy3 initial_globals ''/srv/downloads'' =
     (Inr ((8003, ''/srv/downloads''), 8003),
      busy3\<lparr>connects := [8000, 8001, 8002, 8003], listeners := [(8003, ''/srv/downloads'')]\<rparr>,
      \<lparr>file_server = Some (8003, ''/srv/downloads''), file_server_thread = Some True,
        download_path = Some ''/srv/downloads'', FILE_SERVER_PORT = 8003\<rparr>) \<and>
   fst (start_file_server busy10 initial_globals ''/srv/downloads'') =
     Inl (Exception ''Could not find available port between 8000 and 8010'') \<and>
   listeners (fst (snd (start_file_server busy10 initial_globals ''/srv/downloads''))) = [] \<and>
   snd (snd (start_file_server busy10 initial_globals ''/srv/downloads'')) = initial_globals \<and>
   fst (start_file_server refusing_net initial_globals ''/srv/downloads'') =
     Inl (Exception
        ''Could not start file server on port 8000: [Errno 98] Address already in use'') \<and>
   listeners (fst (snd (start_file_server refusing_net initial_globals ''/srv/downloads''))) = []"
proof -
  have r: "\<not> is_running initial_globals ''/srv/downloads''"
    by (simp add: is_running_def initial_globals_def)
  have o3: "\<forall>p. FILE_SERVER_PORT initial_globals \<le> p \<and> p < FILE_SERVER_PORT initial_globals + 3 \<longrightarrow> occupied busy3 p"
    by (auto simp: initial_globals_def occupied_def busy3_def quiet_net_def)
  have f3: "(3::nat) < 10 \<longrightarrow> \<not> occupied busy3 (FILE_SERVER_PORT initial_globals + 3)"
    by (simp add: initial_globals_def occupied_def busy3_def quiet_net_def)
  have o10: "\<forall>p. FILE_SERVER_PORT initial_globals \<le> p \<and> p < FILE_SERVER_PORT initial_globals + 10 \<longrightarrow> occupied busy10 p"
    by (auto simp: initial_globals_def occupied_def busy10_def quiet_net_def simp del: upt_rec_numeral)
  have f10: "(10::nat) < 10 \<longrightarrow> \<not> occupied busy10 (FILE_SERVER_PORT initial_globals + 10)"
    by simp
  have o0: "\<forall>p. FILE_SERVER_PORT initial_globals \<le> p \<and> p < FILE_SERVER_PORT initial_globals + 0 \<longrightarrow> occupied refusing_net p"
    by auto
  have f0: "(0::nat) < 10 \<longrightarrow> \<not> occupied refusing_net (FILE_SERVER_PORT initial_globals + 0)"
    by (simp add: initial_globals_def occupied_def refusing_net_def quiet_net_def)
  have a: "start_file_server busy3 initial_globals ''/srv/downloads'' =
     (Inr ((8003, ''/srv/downloads''), 8003),
      busy3\<lparr>connects := [8000, 8001, 8002, 8003], listeners := [(8003, ''/srv/downloads'')]\<rparr>,
      \<lparr>file_server = Some (8003, ''/srv/downloads''), file_server_thread = Some True,
        download_path = Some ''/srv/downloads'', FILE_SERVER_PORT = 8003\<rparr>)"
    using port_negotiation[OF r o3 _ f3]
    by (simp add: initial_globals_def busy3_def quiet_net_def upt_8000_8004)
  have b: "start_file_server busy10 initial_globals ''/srv/downloads'' =
     (Inl (Exception (''Could not find available port between '' @ str_nat 8000 @ '' and '' @ str_nat 8010)),
      busy10\<lparr>connects := connects busy10 @ [8000..<8011]\<rparr>, initial_globals)"
    using port_negotiation[OF r o10 _ f10]
    by (simp add: initial_globals_def)
  have p: "FILE_SERVER_PORT initial_globals = 8000"
    by (simp add: initial_globals_def)
  have e: "bind_error refusing_net 8000 = Some (Exception ''[Errno 98] Address already in use'')"
    "connects refusing_net = []" "listeners refusing_net = []"
    by (simp_all add: refusing_net_def quiet_net_def)
  have c: "start_file_server refusing_net initial_globals ''/srv/downloads'' =
     (Inl (Exception
        ''Could not start file server on port 8000: [Errno 98] Address already in use''),
      refusing_net\<lparr>connects := [8000]\<rparr>, initial_globals)"
    using port_negotiation[OF r o0 _ f0]
    by (simp add: p e str_ports)
  show ?thesis
    unfolding a b c by (simp add: str_ports busy10_def quiet_net_def e)
qed

text \<open>The state after a first start for \<open>/srv/a\<close> on a free port 8000.\<close>

definition served_a_net :: net where
  "served_a_net = quiet_net\<lparr>connects := [8000], listeners := [(8000, ''/srv/a'')]\<rparr>"

definition served_a_globals :: server_globals where
  "served_a_globals =
     \<lparr>file_server = Some (8000, ''/srv/a''), file_server_thread = Some True,
      download_path = Some ''/srv/a'', FILE_SERVER_PORT = 8000\<rparr>"

lemma probe_8000_free: "probe quiet_net 8000 8010 = (8000, quiet_net\<lparr>connects := [8000]\<rparr>)"
  by (subst probe.simps) (simp add: is_port_in_use_def occupied_def quiet_net_def)

lemma probe_8000_served:
  "probe served_a_net 8000 8010 = (8001, served_a_net\<lparr>connects := [8000, 8000, 8001]\<rparr>)"
  by (subst probe.simps, simp add: is_port_in_use_def occupied_def served_a_net_def quiet_net_def)
     (subst probe.simps, simp add: is_port_in_use_def occupied_def)

text \<open>
  C2, as stated (a call for a different root returns the existing port and starts no new
  listener), does not hold: after a start for \<open>/srv/a\<close> on 8000, a call for \<open>/srv/b\<close> finds
  8000 occupied, binds a second listener on 8001 and returns 8001; both listeners are bound.
\<close>

theorem existing_port_counterexample:
  "start_file_server quiet_net initial_globals ''/srv/a'' =
     (Inr ((8000, ''/srv/a''), 8000), served_a_net, served_a_globals) \<and>
   start_file_server served_a_net served_a_globals ''/srv/b'' =
     (Inr ((8001, ''/srv/b''), 8001),
      served_a_net\<lparr>connects := [8000, 8000, 8001],
                    listeners := [(8000, ''/srv/a''), (8001, ''/srv/b'')]\<rparr>,
      \<lparr>file_server = Some (8001, ''/srv/b''), file_server_thread = Some True,
        download_path = Some ''/srv/b'', FILE_SERVER_PORT = 8001\<rparr>)"
proof
  show "start_file_server quiet_net initial_globals ''/srv/a'' =
     (Inr ((8000, ''/srv/a''), 8000), served_a_net, served_a_globals)"
    by (simp add: start_file_server_def start_new_def initial_globals_def probe_8000_free)
       (simp add: served_a_net_def served_a_globals_def quiet_net_def)
next
  have l: "listeners served_a_net = [(8000, ''/srv/a'')]" "bind_error served_a_net = (\<lambda>p. None)"
    by (simp_all add: served_a_net_def quiet_net_def)
  show "start_file_server served_a_net served_a_globals ''/srv/b'' =
     (Inr ((8001, ''/srv/b''), 8001),
      served_a_net\<lparr>connects := [8000, 8000, 8001],
                    listeners := [(8000, ''/srv/a''), (8001, ''/srv/b'')]\<rparr>,
      \<lparr>file_server = Some (8001, ''/srv/b''), file_server_thread = Some True,
        download_path = Some ''/srv/b'', FILE_SERVER_PORT = 8001\<rparr>)"
    by (simp add: start_file_server_def start_new_def served_a_globals_def probe_8000_served l)
qed

lemma start_new_result:
  "case start_new w g dp of
     (Inl e, w', g') \<Rightarrow> listeners w' = listeners w \<and> g' = g
   | (Inr (server', port), w', g') \<Rightarrow>
       server' = (port, dp) \<and> \<not> occupied w port \<and>
       FILE_SERVER_PORT g \<le> port \<and> port < FILE_SERVER_PORT g + 10 \<and>
       listeners w' = listeners w @ [(port, dp)] \<and>
       g' = g\<lparr>file_server := Some (port, dp), file_server_thread := Some True,
              download_path := Some dp, FILE_SERVER_PORT := port\<rparr>"
proof -
  obtain port w1 where p: "probe w (FILE_SERVER_PORT g) (FILE_SERVER_PORT g + 10) = (port, w1)"
    by (cases "probe w (FILE_SERVER_PORT g) (FILE_SERVER_PORT g + 10)")
  from probe_result[OF p] obtain cs where
    r: "FILE_SERVER_PORT g \<le> port" "port < FILE_SERVER_PORT g + 10 \<longrightarrow> \<not> occupied w port"
       "w1 = w\<lparr>connects := connects w @ cs\<rparr>"
    by blast
  show ?thesis
    using r by (auto simp: start_new_def p Let_def split: option.splits)
qed

text \<open>
  C2, amended: with a live handle for \<open>root\<close>, only a call for \<open>root\<close> itself returns the
  handle and its port and starts nothing. A call for another directory probes from the
  current port and either raises, leaving listeners and globals as they were, or binds a
  listener for the new directory on a port that was not occupied, returns that port and
  records the new server, directory and port as the handle in the globals.
\<close>

theorem different_root_starts_second_listener:
  assumes "file_server g = Some server" and "file_server_thread g = Some True"
    and "download_path g = Some root" and "root \<noteq> dp"
  shows "start_file_server w g root = (Inr (server, FILE_SERVER_PORT g), w, g) \<and>
    (case start_file_server w g dp of
       (Inl e, w', g') \<Rightarrow> listeners w' = listeners w \<and> g' = g
     | (Inr (server', port), w', g') \<Rightarrow>
         server' = (port, dp) \<and> \<not> occupied w port \<and>
         FILE_SERVER_PORT g \<le> port \<and> port < FILE_SERVER_PORT g + 10 \<and>
         listeners w' = listeners w @ [(port, dp)] \<and>
         g' = g\<lparr>file_server := Some (port, dp), file_server_thread := Some True,
                download_path := Some dp, FILE_SERVER_PORT := port\<rparr>)"
proof
  show "start_file_server w g root = (Inr (server, FILE_SERVER_PORT g), w, g)"
    using assms by (simp add: start_file_server_def)
next
  have "start_file_server w g dp = start_new w g dp"
    using assms by (simp add: start_file_server_def)
  then show "case start_file_server w g dp of
       (Inl e, w', g') \<Rightarrow> listeners w' = listeners w \<and> g' = g
     | (Inr (server', port), w', g') \<Rightarrow>
         server' = (port, dp) \<and> \<not> occupied w port \<and>
         FILE_SERVER_PORT g \<le> port \<and> port < FILE_SERVER_PORT g + 10 \<and>
         listeners w' = listeners w @ [(port, dp)] \<and>
         g' = g\<lparr>file_server := Some (port, dp), file_server_thread := Some True,
                download_path := Some dp, FILE_SERVER_PORT := port\<rparr>"
    using start_new_result[of w g dp] by simp
qed

theorem different_root_starts_second_listener_witness:
  "start_file_server served_a_net served_a_globals ''/srv/a'' =
     (Inr ((8000, ''/srv/a''), 8000), served_a_net, served_a_globals) \<and>
   fst (start_file_server served_a_net served_a_globals ''/srv/b'') = Inr ((8001, ''/srv/b''), 8001) \<and>
   listeners (fst (snd (start_file_server served_a_net served_a_globals ''/srv/b''))) =
     [(8000, ''/srv/a''), (8001, ''/srv/b'')]"
proof -
  have h: "file_server served_a_globals = Some (8000, ''/srv/a'')"
    "file_server_thread served_a_globals = Some True"
    "download_path served_a_globals = Some ''/srv/a''" "''/srv/a'' \<noteq> ''/srv/b''"
    by (simp_all add: served_a_globals_def)
  have e: "start_file_server served_a_net served_a_globals ''/srv/b'' =
     (Inr ((8001, ''/srv/b''), 8001),
      served_a_net\<lparr>connects := [8000, 8000, 8001],
                    listeners := [(8000, ''/srv/a''), (8001, ''/srv/b'')]\<rparr>,
      \<lparr>file_server = Some (8001, ''/srv/b''), file_server_thread = Some True,
        download_path = Some ''/srv/b'', FILE_SERVER_PORT = 8001\<rparr>)"
    by (simp add: start_file_server_def start_new_def served_a_globals_def probe_8000_served)
       (simp add: served_a_net_def quiet_net_def)
  have p: "FILE_SERVER_PORT served_a_globals = 8000"
    by (simp add: served_a_globals_def)
  show ?thesis
    using different_root_starts_second_listener[OF h, of served_a_net]
    by (simp add: e p)
qed

section \<open>Downloading attachments\<close>

text \<open>
  \<open>os.path.join\<close> of two components and \<open>os.path.splitext\<close>, as \<open>posixpath\<close> defines them;
  \<open>rfind\<close> is \<open>str.rfind\<close> of one character (\<open>-1\<close> when absent).
\<close>

definition path_join :: "string \<Rightarrow> string \<Rightarrow> string" where
  "path_join a b =
     (if b \<noteq> [] \<and> hd b = CHR ''/'' then b
      else if a = [] \<or> last a = CHR ''/'' then a @ b
      else a @ ''/'' @ b)"

fun rfind :: "char \<Rightarrow> string \<Rightarrow> int" where
  "rfind c [] = - 1"
| "rfind c (x # xs) =
     (let r = rfind c xs in if r \<ge> 0 then r + 1 else if x = c then 0 else - 1)"

definition splitext :: "string \<Rightarrow> string \<times> string" where
  "splitext p =
     (let sepIndex = rfind (CHR ''/'') p; dotIndex = rfind (CHR ''.'') p
      in if dotIndex > sepIndex \<and>
            list_ex (\<lambda>c. c \<noteq> CHR ''.'')
              (take (nat (dotIndex - (sepIndex + 1))) (drop (nat (sepIndex + 1)) p))
         then (take (nat dotIndex) p, drop (nat dotIndex) p)
         else (p, []))"

text \<open>
  The file system is the list of the paths that exist, each with its content; paths are
  compared as strings. \<open>numbered\<close> is the f-string \<open>{name}_{counter}{ext}\<close>.
\<close>

type_synonym fs = "(string \<times> string) list"

definition path_exists :: "fs \<Rightarrow> string \<Rightarrow> bool" where
  "path_exists fs p = (p \<in> set (map fst fs))"

definition numbered :: "string \<Rightarrow> nat \<Rightarrow> string" where
  "numbered original_filename counter =
     (let (name, ext) = splitext original_filename in name @ ''_'' @ str_nat counter @ ext)"

text \<open>
  The loop \<open>while os.path.exists(file_path)\<close> ends because distinct counters give distinct
  paths and only finitely many paths exist.
\<close>

lemma digit_char_inj: "a < 10 \<Longrightarrow> b < 10 \<Longrightarrow> digit_char a = digit_char b \<Longrightarrow> a = b"
  unfolding digit_char_def by (subst (asm) nth_eq_iff_index_eq) simp_all

lemma str_nat_nonempty: "str_nat n \<noteq> []"
  by (subst str_nat.simps) simp

lemma str_nat_inj: "str_nat n = str_nat m \<Longrightarrow> n = m"
proof (induction n arbitrary: m rule: str_nat.induct)
  case (1 n)
  show ?case
  proof (cases "n < 10")
    case True
    note n = this
    show ?thesis
    proof (cases "m < 10")
      case True
      with n "1.prems" show ?thesis
        by (simp add: str_nat.simps[of n] str_nat.simps[of m] digit_char_inj)
    next
      case False
      with n "1.prems" show ?thesis
        using str_nat_nonempty[of "m div 10"]
        by (simp add: str_nat.simps[of n] str_nat.simps[of m])
    qed
  next
    case False
    note n = this
    show ?thesis
    proof (cases "m < 10")
      case True
      with n "1.prems" show ?thesis
        using str_nat_nonempty[of "n div 10"]
        by (simp add: str_nat.simps[of n] str_nat.simps[of m])
    next
      case False
      with n "1.prems" have e: "str_nat (n div 10) = str_nat (m div 10)"
        and d: "digit_char (n mod 10) = digit_char (m mod 10)"
        by (simp_all add: str_nat.simps[of n] str_nat.simps[of m])
      have "n div 10 = m div 10" using "1.IH"[OF n e] .
      moreover have "n mod 10 = m mod 10" using d by (intro digit_char_inj) simp_all
      ultimately show ?thesis by (metis div_mult_mod_eq)
    qed
  qed
qed

lemma path_join_numbered:
  "\<exists>q. \<forall>k. path_join dp (numbered orig k) = q @ str_nat k @ snd (splitext orig)"
proof -
  obtain name ext where sp: "splitext orig = (name, ext)" by (cases "splitext orig")
  have nb: "\<And>k. numbered orig k = (name @ ''_'') @ str_nat k @ ext"
    by (simp add: numbered_def sp)
  have hd: "\<And>k. hd (numbered orig k) = hd (name @ ''_'')"
    by (simp add: nb hd_append)
  show ?thesis
  proof (cases "hd (name @ ''_'') = CHR ''/''")
    case True
    then have "\<forall>k. path_join dp (numbered orig k) = (name @ ''_'') @ str_nat k @ snd (splitext orig)"
      using hd by (simp add: path_join_def nb sp)
    then show ?thesis by blast
  next
    case False
    note nf = this
    show ?thesis
    proof (cases "dp = [] \<or> last dp = CHR ''/''")
      case True
      with nf have "\<forall>k. path_join dp (numbered orig k) = (dp @ name @ ''_'') @ str_nat k @ snd (splitext orig)"
        using hd by (auto simp add: path_join_def nb sp)
      then show ?thesis by blast
    next
      case False
      with nf have "\<forall>k. path_join dp (numbered orig k) = (dp @ ''/'' @ name @ ''_'') @ str_nat k @ snd (splitext orig)"
        using hd by (auto simp add: path_join_def nb sp)
      then show ?thesis by blast
    qed
  qed
qed

lemma path_join_numbered_inj:
  "path_join dp (numbered orig k) = path_join dp (numbered orig k') \<Longrightarrow> k = k'"
proof -
  assume a: "path_join dp (numbered orig k) = path_join dp (numbered orig k')"
  obtain q where q: "\<And>k. path_join dp (numbered orig k) = q @ str_nat k @ snd (splitext orig)"
    using path_join_numbered by blast
  from a have "str_nat k = str_nat k'" by (simp add: q)
  then show ?thesis by (rule str_nat_inj)
qed

lemma finite_collisions:
  "finite {k. path_exists fs (path_join dp (numbered orig k))}"
proof -
  have "inj (\<lambda>k. path_join dp (numbered orig k))"
    by (rule injI) (rule path_join_numbered_inj)
  then have "finite ((\<lambda>k. path_join dp (numbered orig k)) -` set (map fst fs))"
    by (intro finite_vimageI) simp_all
  then show ?thesis by (simp add: path_exists_def vimage_def)
qed

definition collisions_from :: "fs \<Rightarrow> string \<Rightarrow> string \<Rightarrow> nat \<Rightarrow> nat set" where
  "collisions_from fs dp orig c = {k. c \<le> k \<and> path_exists fs (path_join dp (numbered orig k))}"

lemma finite_collisions_from: "finite (collisions_from fs dp orig c)"
  unfolding collisions_from_def by (rule finite_subset[OF _ finite_collisions[of fs dp orig]]) auto

lemma collisions_from_Suc:
  "collisions_from fs dp orig c =
     (if path_exists fs (path_join dp (numbered orig c)) then insert c (collisions_from fs dp orig (Suc c))
      else collisions_from fs dp orig (Suc c))"
  unfolding collisions_from_def by (auto simp: Suc_le_eq le_less)

lemma card_collisions_from:
  "card (collisions_from fs dp orig c) =
     card (collisions_from fs dp orig (Suc c)) +
     (if path_exists fs (path_join dp (numbered orig c)) then 1 else 0)"
proof -
  have "c \<notin> collisions_from fs dp orig (Suc c)" by (simp add: collisions_from_def)
  then show ?thesis
    by (subst collisions_from_Suc) (simp add: finite_collisions_from)
qed

function uniq_loop :: "fs \<Rightarrow> string \<Rightarrow> string \<Rightarrow> string \<times> string \<times> nat \<Rightarrow> string \<times> string \<times> nat" where
  "uniq_loop fs dp original_filename (fname, file_path, counter) =
     (if path_exists fs file_path then
        (let fname' = numbered original_filename counter
         in uniq_loop fs dp original_filename (fname', path_join dp fname', counter + 1))
      else (fname, file_path, counter))"
  by pat_completeness auto
termination
proof (relation "measure (\<lambda>(fs, dp, orig, (fname, file_path, counter)).
          card (collisions_from fs dp orig counter) + (if path_exists fs file_path then 1 else 0))")
  show "wf (measure (\<lambda>(fs, dp, orig, (fname, file_path, counter)).
          card (collisions_from fs dp orig counter) + (if path_exists fs file_path then 1 else 0)))"
    by simp
next
  fix fs :: fs and dp original_filename fname file_path :: string and counter :: nat and x :: string
  assume "path_exists fs file_path" and "x = numbered original_filename counter"
  then show "((fs, dp, original_filename, x, path_join dp x, counter + 1),
              (fs, dp, original_filename, fname, file_path, counter))
         \<in> measure (\<lambda>(fs, dp, orig, (fname, file_path, counter)).
          card (collisions_from fs dp orig counter) + (if path_exists fs file_path then 1 else 0))"
    by (simp add: card_collisions_from[of fs dp original_filename counter])
qed

declare uniq_loop.simps [simp del]

text \<open>
  \<open>urllib.parse.quote\<close> with its default \<open>safe='/'\<close>: every byte outside the unreserved
  characters and the slash becomes \<open>%XX\<close>.
\<close>

definition always_safe :: string where
  "always_safe = ''ABCDEFGHIJKLMNOPQRSTUVWXYZabcdefghijklmnopqrstuvwxyz0123456789_.-~''"

definition hex_digit :: "nat \<Rightarrow> char" where
  "hex_digit d = ''0123456789ABCDEF'' ! d"

definition quote :: "string \<Rightarrow> string" where
  "quote s =
     concat (map (\<lambda>c. if c \<in> set always_safe \<or> c = CHR ''/'' then [c]
                       else [CHR ''%'', hex_digit (of_char c div 16), hex_digit (of_char c mod 16)]) s)"

text \<open>
  The download loop of \<open>download_email_attachments\<close>. \<open>attachments_get\<close> is the result of
  \<open>attachments().get(...).execute()\<close> (its \<open>data\<close> entry, if present); \<open>open_wb\<close> is what
  opening and writing the file raises, if anything. \<open>download_one\<close> is the body of the
  \<open>try\<close> for one attachment, \<open>download_loop\<close> the \<open>for\<close> loop with its \<open>except\<close>.
\<close>

record attachment =
  attachment_id :: string
  filename_a :: string
  mime_type :: string
  size_a :: int

record downloaded_file =
  filename_d :: string
  original_filename :: string
  download_link :: string
  file_size :: nat
  mime_type_d :: string

record failed_file =
  filename_f :: string
  error_f :: string

record attachment_api =
  attachments_get :: "string \<Rightarrow> exn + decoded option"
  open_wb :: "string \<Rightarrow> exn option"

definition download_one ::
  "attachment_api \<Rightarrow> string \<Rightarrow> nat \<Rightarrow> attachment \<Rightarrow> fs \<Rightarrow> (exn + downloaded_file) \<times> fs" where
  "download_one api dp server_port att fs =
     (case attachments_get api (attachment_id att) of
        Inl e \<Rightarrow> (Inl e, fs)
      | Inr attachment_data \<Rightarrow>
          (case attachment_data of
             None \<Rightarrow> (Inl (KeyError ''data''), fs)
           | Some d \<Rightarrow>
               (case b64decode d of
                  Inl e \<Rightarrow> (Inl e, fs)
                | Inr file_data \<Rightarrow>
                    (case uniq_loop fs dp (filename_a att)
                            (filename_a att, path_join dp (filename_a att), 1) of
                       (fname, file_path, counter) \<Rightarrow>
                         (case open_wb api file_path of
                            Some e \<Rightarrow> (Inl e, fs)
                          | None \<Rightarrow>
                              (Inr \<lparr>filename_d = fname,
                                    original_filename = filename_a att,
                                    download_link =
                                      ''http://localhost:'' @ str_nat server_port @ ''/'' @ quote fname,
                                    file_size = length file_data,
                                    mime_type_d = mime_type att\<rparr>,
                               (file_path, file_data) # fs))))))"

fun download_loop ::
  "attachment_api \<Rightarrow> string \<Rightarrow> nat \<Rightarrow> attachment list \<Rightarrow>
   fs \<times> downloaded_file list \<times> failed_file list \<Rightarrow> fs \<times> downloaded_file list \<times> failed_file list" where
  "download_loop api dp server_port [] st = st"
| "download_loop api dp server_port (att # atts) (fs, downloaded_files, failed_downloads) =
     (case download_one api dp server_port att fs of
        (Inr d, fs') \<Rightarrow>
          download_loop api dp server_port atts (fs', downloaded_files @ [d], failed_downloads)
      | (Inl e, fs') \<Rightarrow>
          download_loop api dp server_port atts
            (fs', downloaded_files,
             failed_downloads @ [\<lparr>filename_f = filename_a att, error_f = str_exn e\<rparr>]))"

text \<open>
  The outcome of each attachment, in order, each computed by \<open>download_one\<close> on the
  file system left by the attachments before it; the successes and the failures among them.
\<close>

fun outcomes :: "attachment_api \<Rightarrow> string \<Rightarrow> nat \<Rightarrow> attachment list \<Rightarrow> fs \<Rightarrow> (exn + downloaded_file) list" where
  "outcomes api dp server_port [] fs = []"
| "outcomes api dp server_port (att # atts) fs =
     fst (download_one api dp server_port att fs) #
     outcomes api dp server_port atts (snd (download_one api dp server_port att fs))"

definition successes :: "(exn + downloaded_file) list \<Rightarrow> downloaded_file list" where
  "successes os = List.map_filter (\<lambda>r. case r of Inr d \<Rightarrow> Some d | Inl e \<Rightarrow> None) os"

definition failures :: "attachment list \<Rightarrow> (exn + downloaded_file) list \<Rightarrow> failed_file list" where
  "failures atts os =
     List.map_filter (\<lambda>(att, r). case r of Inl e \<Rightarrow> Some \<lparr>filename_f = filename_a att, error_f = str_exn e\<rparr>
                                   | Inr d \<Rightarrow> None) (zip atts os)"

lemma length_outcomes: "length (outcomes api dp port atts fs) = length atts"
  by (induction atts arbitrary: fs) auto

lemma download_loop_outcomes:
  "download_loop api dp port atts (fs, ds, fl) =
     (fst (download_loop api dp port atts (fs, ds, fl)),
      ds @ successes (outcomes api dp port atts fs),
      fl @ failures atts (outcomes api dp port atts fs))"
proof (induction atts arbitrary: fs ds fl)
  case Nil
  show ?case by (simp add: successes_def failures_def List.map_filter_simps)
next
  case (Cons att atts)
  obtain r fs' where r: "download_one api dp port att fs = (r, fs')"
    by (cases "download_one api dp port att fs")
  show ?case
  proof (cases r)
    case (Inl e)
    show ?thesis
      using Cons.IH[of fs' ds "fl @ [\<lparr>filename_f = filename_a att, error_f = str_exn e\<rparr>]"]
      by (simp add: r Inl successes_def failures_def List.map_filter_simps)
  next
    case (Inr d)
    show ?thesis
      using Cons.IH[of fs' "ds @ [d]" fl]
      by (simp add: r Inr successes_def failures_def List.map_filter_simps)
  qed
qed

lemma uniq_loop_free:
  "\<not> path_exists fs file_path \<Longrightarrow>
   uniq_loop fs dp orig (fname, file_path, c) = (fname, file_path, c)"
  by (subst uniq_loop.simps) simp

lemma uniq_loop_taken:
  "path_exists fs file_path \<Longrightarrow>
   \<exists>n\<ge>c. uniq_loop fs dp orig (fname, file_path, c) =
           (numbered orig n, path_join dp (numbered orig n), n + 1) \<and>
         \<not> path_exists fs (path_join dp (numbered orig n)) \<and>
         (\<forall>k. c \<le> k \<and> k < n \<longrightarrow> path_exists fs (path_join dp (numbered orig k)))"
proof (induction fs dp orig "(fname, file_path, c)" arbitrary: fname file_path c rule: uniq_loop.induct)
  case (1 fs dp orig fname file_path c)
  have step: "uniq_loop fs dp orig (fname, file_path, c) =
      uniq_loop fs dp orig (numbered orig c, path_join dp (numbered orig c), c + 1)"
    using "1.prems" by (subst uniq_loop.simps) (simp add: Let_def)
  show ?case
  proof (cases "path_exists fs (path_join dp (numbered orig c))")
    case False
    then have "uniq_loop fs dp orig (fname, file_path, c) =
        (numbered orig c, path_join dp (numbered orig c), c + 1)"
      by (simp add: step uniq_loop_free)
    with False show ?thesis by (intro exI[of _ c]) auto
  next
    case True
    obtain n where n: "c + 1 \<le> n"
      "uniq_loop fs dp orig (numbered orig c, path_join dp (numbered orig c), c + 1) =
         (numbered orig n, path_join dp (numbered orig n), n + 1)"
      "\<not> path_exists fs (path_join dp (numbered orig n))"
      "\<forall>k. c + 1 \<le> k \<and> k < n \<longrightarrow> path_exists fs (path_join dp (numbered orig k))"
      using "1.hyps"[OF "1.prems" refl True] by blast
    have "\<forall>k. c \<le> k \<and> k < n \<longrightarrow> path_exists fs (path_join dp (numbered orig k))"
    proof (intro allI impI)
      fix k assume k: "c \<le> k \<and> k < n"
      show "path_exists fs (path_join dp (numbered orig k))"
      proof (cases "k = c")
        case True
        then show ?thesis using \<open>path_exists fs (path_join dp (numbered orig c))\<close> by simp
      next
        case False
        with k have "c + 1 \<le> k \<and> k < n" by simp
        with n(4) show ?thesis by blast
      qed
    qed
    with n step show ?thesis by (intro exI[of _ n]) auto
  qed
qed

lemma download_one_success:
  assumes "download_one api dp port att fs = (Inr d, fs')"
  shows "\<exists>file_data c.
           uniq_loop fs dp (filename_a att) (filename_a att, path_join dp (filename_a att), 1) =
             (filename_d d, path_join dp (filename_d d), c) \<and>
           fs' = (path_join dp (filename_d d), file_data) # fs \<and>
           download_link d = ''http://localhost:'' @ str_nat port @ ''/'' @ quote (filename_d d) \<and>
           original_filename d = filename_a att \<and> file_size d = length file_data"
proof -
  obtain fname file_path c where u:
    "uniq_loop fs dp (filename_a att) (filename_a att, path_join dp (filename_a att), 1) =
       (fname, file_path, c)"
    by (cases "uniq_loop fs dp (filename_a att) (filename_a att, path_join dp (filename_a att), 1)")
  have fp: "file_path = path_join dp fname"
  proof (cases "path_exists fs (path_join dp (filename_a att))")
    case True
    from uniq_loop_taken[OF True, of 1 dp "filename_a att" "filename_a att"] u show ?thesis by auto
  next
    case False
    from uniq_loop_free[OF False, of dp "filename_a att" "filename_a att" 1] u show ?thesis by auto
  qed
  from assms u fp show ?thesis
    by (auto simp: download_one_def split: sum.splits option.splits)
qed

section \<open>Names that collide\<close>

text \<open>
  \<open>rfind\<close> finds the last occurrence; a counter and an underscore hold neither a dot nor a
  slash, so the numbered name splits at the same dot as the original name
  (\<open>splitext_numbered\<close>).
\<close>

lemma rfind_notin: "c \<notin> set s \<Longrightarrow> rfind c s = - 1"
  by (induction s) (auto simp: Let_def)

lemma rfind_bounds: "- 1 \<le> rfind c s \<and> rfind c s < int (length s)"
  by (induction s) (auto simp: Let_def)

lemma rfind_in: "c \<in> set s \<Longrightarrow> 0 \<le> rfind c s"
  by (induction s) (auto simp: Let_def)

lemma rfind_neg_notin: "rfind c s < 0 \<Longrightarrow> c \<notin> set s"
  using rfind_in[of c s] by auto

lemma rfind_append:
  "rfind c (xs @ ys) = (if c \<in> set ys then int (length xs) + rfind c ys else rfind c xs)"
proof (induction xs)
  case Nil
  show ?case by (simp add: rfind_notin)
next
  case (Cons x xs)
  show ?case
  proof (cases "c \<in> set ys")
    case True
    then have "0 \<le> rfind c ys" by (rule rfind_in)
    with True Cons show ?thesis by (simp add: Let_def)
  next
    case False
    with Cons show ?thesis by (simp add: Let_def)
  qed
qed

lemma rfind_last_occurrence: "c \<notin> set post \<Longrightarrow> rfind c (pre @ c # post) = int (length pre)"
  by (simp add: rfind_append rfind_notin Let_def)

lemma str_nat_digits: "set (str_nat n) \<subseteq> set ''0123456789''"
proof (induction n rule: str_nat.induct)
  case (1 n)
  have d: "\<And>k. k < 10 \<Longrightarrow> digit_char k \<in> set ''0123456789''"
    unfolding digit_char_def by (rule nth_mem) simp
  show ?case
  proof (cases "n < 10")
    case True
    then show ?thesis using d[of n] by (subst str_nat.simps) simp
  next
    case False
    have "digit_char (n mod 10) \<in> set ''0123456789''" by (rule d) simp
    with False "1.IH" show ?thesis by (subst str_nat.simps) simp
  qed
qed

lemma suffix_chars:
  "CHR ''.'' \<notin> set (''_'' @ str_nat n)" "CHR ''/'' \<notin> set (''_'' @ str_nat n)"
  using str_nat_digits[of n] by auto

lemma splitext_split:
  assumes "rfind (CHR ''/'') p < rfind (CHR ''.'') p"
    and "list_ex (\<lambda>c. c \<noteq> CHR ''.'')
           (take (nat (rfind (CHR ''.'') p - (rfind (CHR ''/'') p + 1))) (drop (nat (rfind (CHR ''/'') p + 1)) p))"
  shows "\<exists>pre post. p = pre @ CHR ''.'' # post \<and> CHR ''.'' \<notin> set post \<and>
           CHR ''/'' \<notin> set post \<and> splitext p = (pre, CHR ''.'' # post) \<and>
           list_ex (\<lambda>c. c \<noteq> CHR ''.'') (drop (nat (rfind (CHR ''/'') pre + 1)) pre)"
proof -
  have "0 \<le> rfind (CHR ''.'') p" using assms(1) rfind_bounds[of "CHR ''/''" p] by simp
  then have "CHR ''.'' \<in> set p" using rfind_notin[of "CHR ''.''" p] by force
  then obtain pre post where p: "p = pre @ CHR ''.'' # post" and np: "CHR ''.'' \<notin> set post"
    using split_list_last[of "CHR ''.''" p] by blast
  have d: "rfind (CHR ''.'') p = int (length pre)"
    using np by (simp add: p rfind_last_occurrence)
  have ns: "CHR ''/'' \<notin> set post"
  proof
    assume "CHR ''/'' \<in> set post"
    then have "rfind (CHR ''/'') p = int (length pre) + rfind (CHR ''/'') (CHR ''.'' # post)"
      by (simp add: p rfind_append del: rfind.simps)
    moreover have "0 \<le> rfind (CHR ''/'') (CHR ''.'' # post)"
      using \<open>CHR ''/'' \<in> set post\<close> by (intro rfind_in) simp
    ultimately show False using assms(1) d by simp
  qed
  have s: "rfind (CHR ''/'') p = rfind (CHR ''/'') pre"
    using ns by (simp add: p rfind_append del: rfind.simps)
  have sl: "take (nat (rfind (CHR ''.'') p - (rfind (CHR ''/'') p + 1))) (drop (nat (rfind (CHR ''/'') p + 1)) p)
      = drop (nat (rfind (CHR ''/'') pre + 1)) pre"
  proof -
    have b: "- 1 \<le> rfind (CHR ''/'') pre" "rfind (CHR ''/'') pre < int (length pre)"
      using rfind_bounds[of "CHR ''/''" pre] by auto
    have "drop (nat (rfind (CHR ''/'') pre + 1)) p = drop (nat (rfind (CHR ''/'') pre + 1)) pre @ CHR ''.'' # post"
      using b by (simp add: p)
    moreover have "nat (int (length pre) - (rfind (CHR ''/'') pre + 1)) = length (drop (nat (rfind (CHR ''/'') pre + 1)) pre)"
      using b by (simp add: nat_diff_distrib')
    ultimately show ?thesis by (simp add: d s)
  qed
  have "splitext p = (take (nat (rfind (CHR ''.'') p)) p, drop (nat (rfind (CHR ''.'') p)) p)"
    using assms by (simp add: splitext_def Let_def)
  also have "\<dots> = (pre, CHR ''.'' # post)"
    unfolding d by (simp add: p)
  finally have sp: "splitext p = (pre, CHR ''.'' # post)" .
  have nd: "list_ex (\<lambda>c. c \<noteq> CHR ''.'') (drop (nat (rfind (CHR ''/'') pre + 1)) pre)"
    using assms(2) unfolding sl .
  show ?thesis using p np ns sp nd by blast
qed

lemma splitext_numbered:
  "splitext (numbered orig n) =
     (fst (splitext orig) @ ''_'' @ str_nat n, snd (splitext orig))"
proof (cases "rfind (CHR ''/'') orig < rfind (CHR ''.'') orig \<and>
    list_ex (\<lambda>c. c \<noteq> CHR ''.'')
      (take (nat (rfind (CHR ''.'') orig - (rfind (CHR ''/'') orig + 1)))
         (drop (nat (rfind (CHR ''/'') orig + 1)) orig))")
  case True
  then obtain pre post where o: "orig = pre @ CHR ''.'' # post" and np: "CHR ''.'' \<notin> set post"
    and ns: "CHR ''/'' \<notin> set post" and sp: "splitext orig = (pre, CHR ''.'' # post)"
    and nd: "list_ex (\<lambda>c. c \<noteq> CHR ''.'') (drop (nat (rfind (CHR ''/'') pre + 1)) pre)"
    using splitext_split[of orig] by blast
  let ?mid = "''_'' @ str_nat n"
  let ?p = "(pre @ ?mid) @ CHR ''.'' # post"
  have nb: "numbered orig n = ?p" by (simp add: numbered_def sp)
  have d: "rfind (CHR ''.'') ?p = int (length (pre @ ?mid))"
    using np by (rule rfind_last_occurrence)
  have "CHR ''/'' \<notin> set (?mid @ CHR ''.'' # post)"
    using ns suffix_chars(2)[of n] by simp
  then have s: "rfind (CHR ''/'') ?p = rfind (CHR ''/'') pre"
    using rfind_append[of "CHR ''/''" pre "?mid @ CHR ''.'' # post"] by simp
  have b: "- 1 \<le> rfind (CHR ''/'') pre" "rfind (CHR ''/'') pre < int (length pre)"
    using rfind_bounds[of "CHR ''/''" pre] by auto
  have lt: "rfind (CHR ''/'') ?p < rfind (CHR ''.'') ?p"
    unfolding d s using b by simp
  have sl: "take (nat (rfind (CHR ''.'') ?p - (rfind (CHR ''/'') ?p + 1))) (drop (nat (rfind (CHR ''/'') ?p + 1)) ?p)
      = drop (nat (rfind (CHR ''/'') pre + 1)) pre @ ?mid"
  proof -
    have "drop (nat (rfind (CHR ''/'') pre + 1)) ?p =
        (drop (nat (rfind (CHR ''/'') pre + 1)) pre @ ?mid) @ CHR ''.'' # post"
      using b by simp
    moreover have "nat (int (length (pre @ ?mid)) - (rfind (CHR ''/'') pre + 1)) =
        length (drop (nat (rfind (CHR ''/'') pre + 1)) pre @ ?mid)"
      using b by (simp add: nat_diff_distrib' nat_add_distrib)
    ultimately show ?thesis unfolding d s by (metis append_eq_conv_conj)
  qed
  have ex: "list_ex (\<lambda>c. c \<noteq> CHR ''.'')
      (take (nat (rfind (CHR ''.'') ?p - (rfind (CHR ''/'') ?p + 1))) (drop (nat (rfind (CHR ''/'') ?p + 1)) ?p))"
    unfolding sl by (simp add: list_ex_iff)
  have "splitext ?p = (take (nat (rfind (CHR ''.'') ?p)) ?p, drop (nat (rfind (CHR ''.'') ?p)) ?p)"
    using lt ex by (simp add: splitext_def Let_def del: append_assoc)
  also have "\<dots> = (pre @ ?mid, CHR ''.'' # post)"
    unfolding d by (metis append_eq_conv_conj nat_int)
  finally show ?thesis by (simp add: nb sp)
next
  case False
  then have sp: "splitext orig = (orig, [])"
    by (auto simp: splitext_def Let_def)
  let ?mid = "''_'' @ str_nat n"
  have nb: "numbered orig n = orig @ ?mid" by (simp add: numbered_def sp)
  have d: "rfind (CHR ''.'') (orig @ ?mid) = rfind (CHR ''.'') orig"
    using suffix_chars(1)[of n] rfind_append[of "CHR ''.''" orig ?mid] by simp
  have s: "rfind (CHR ''/'') (orig @ ?mid) = rfind (CHR ''/'') orig"
    using suffix_chars(2)[of n] rfind_append[of "CHR ''/''" orig ?mid] by simp
  have sl: "rfind (CHR ''/'') orig < rfind (CHR ''.'') orig \<Longrightarrow>
      take (nat (rfind (CHR ''.'') orig - (rfind (CHR ''/'') orig + 1))) (drop (nat (rfind (CHR ''/'') orig + 1)) (orig @ ?mid))
      = take (nat (rfind (CHR ''.'') orig - (rfind (CHR ''/'') orig + 1))) (drop (nat (rfind (CHR ''/'') orig + 1)) orig)"
  proof -
    assume lt: "rfind (CHR ''/'') orig < rfind (CHR ''.'') orig"
    have b: "- 1 \<le> rfind (CHR ''/'') orig" "rfind (CHR ''.'') orig < int (length orig)"
      using rfind_bounds[of "CHR ''/''" orig] rfind_bounds[of "CHR ''.''" orig] by auto
    have "nat (rfind (CHR ''/'') orig + 1) \<le> length orig" using lt b by simp
    moreover have "nat (rfind (CHR ''.'') orig - (rfind (CHR ''/'') orig + 1)) \<le>
        length (drop (nat (rfind (CHR ''/'') orig + 1)) orig)"
      using lt b by simp
    ultimately show ?thesis by simp
  qed
  have "splitext (orig @ ?mid) = (orig @ ?mid, [])"
    using False sl unfolding splitext_def d s Let_def by auto
  then show ?thesis by (simp add: nb sp)
qed

text \<open>
  C7. When a file of the attachment's name exists in the download directory, the name
  written is \<open>name_n.ext\<close> for the least \<open>n \<ge> 1\<close> whose file does not exist, with \<open>name\<close> and
  \<open>ext\<close> the two halves of \<open>splitext\<close> of the original name; the extension of the new name is
  the original extension; the file is written under the new name and the link carries it.
\<close>

theorem collision_appends_counter:
  assumes "path_exists fs (path_join dp (filename_a att))"
    and "download_one api dp port att fs = (Inr d, fs')"
  shows "\<exists>n\<ge>1.
      filename_d d =
        fst (splitext (filename_a att)) @ ''_'' @ str_nat n @ snd (splitext (filename_a att)) \<and>
      (\<forall>k. 1 \<le> k \<and> k < n \<longrightarrow> path_exists fs (path_join dp (numbered (filename_a att) k))) \<and>
      \<not> path_exists fs (path_join dp (filename_d d)) \<and>
      snd (splitext (filename_d d)) = snd (splitext (filename_a att)) \<and>
      (\<exists>file_data. fs' = (path_join dp (filename_d d), file_data) # fs) \<and>
      download_link d = ''http://localhost:'' @ str_nat port @ ''/'' @ quote (filename_d d)"
proof -
  obtain file_data c where s:
    "uniq_loop fs dp (filename_a att) (filename_a att, path_join dp (filename_a att), 1) =
       (filename_d d, path_join dp (filename_d d), c)"
    "fs' = (path_join dp (filename_d d), file_data) # fs"
    "download_link d = ''http://localhost:'' @ str_nat port @ ''/'' @ quote (filename_d d)"
    using download_one_success[OF assms(2)] by blast
  obtain n where n: "1 \<le> n"
    "uniq_loop fs dp (filename_a att) (filename_a att, path_join dp (filename_a att), 1) =
       (numbered (filename_a att) n, path_join dp (numbered (filename_a att) n), n + 1)"
    "\<not> path_exists fs (path_join dp (numbered (filename_a att) n))"
    "\<forall>k. 1 \<le> k \<and> k < n \<longrightarrow> path_exists fs (path_join dp (numbered (filename_a att) k))"
    using uniq_loop_taken[OF assms(1), of 1 dp "filename_a att" "filename_a att"] by blast
  have f: "filename_d d = numbered (filename_a att) n" using s(1) n(2) by simp
  have e: "numbered (filename_a att) n =
      fst (splitext (filename_a att)) @ ''_'' @ str_nat n @ snd (splitext (filename_a att))"
    by (simp add: numbered_def split: prod.splits)
  have x: "snd (splitext (filename_d d)) = snd (splitext (filename_a att))"
    by (simp add: f splitext_numbered)
  show ?thesis
    using n(1,3,4) s(2,3) x e f by (intro exI[of _ n]) auto
qed

lemma download_one_original:
  "fst (download_one api dp port att fs) = Inr d \<Longrightarrow> original_filename d = filename_a att"
  using download_one_success[of api dp port att fs d "snd (download_one api dp port att fs)"]
  by (cases "download_one api dp port att fs") auto

lemma successes_subseq:
  "subseq (map original_filename (successes (outcomes api dp port atts fs))) (map filename_a atts)"
proof (induction atts arbitrary: fs)
  case Nil
  show ?case by (simp add: successes_def List.map_filter_simps)
next
  case (Cons att atts)
  show ?case
  proof (cases "fst (download_one api dp port att fs)")
    case (Inl e)
    then show ?thesis
      using list_emb_Cons[OF Cons.IH[of "snd (download_one api dp port att fs)"], of "filename_a att"]
      by (simp add: successes_def List.map_filter_simps)
  next
    case (Inr d)
    then show ?thesis
      using Cons.IH download_one_original[OF Inr]
      by (simp add: successes_def List.map_filter_simps)
  qed
qed

lemma failures_subseq:
  "subseq (map filename_f (failures atts (outcomes api dp port atts fs))) (map filename_a atts)"
proof (induction atts arbitrary: fs)
  case Nil
  show ?case by (simp add: failures_def List.map_filter_simps)
next
  case (Cons att atts)
  show ?case
    using Cons.IH[of "snd (download_one api dp port att fs)"]
      list_emb_Cons[OF Cons.IH[of "snd (download_one api dp port att fs)"], of "filename_a att"]
    by (cases "fst (download_one api dp port att fs)")
       (simp_all add: failures_def List.map_filter_simps)
qed

lemma count_outcomes:
  "length (successes (outcomes api dp port atts fs)) +
   length (failures atts (outcomes api dp port atts fs)) = length atts"
proof (induction atts arbitrary: fs)
  case Nil
  show ?case by (simp add: successes_def failures_def List.map_filter_simps)
next
  case (Cons att atts)
  show ?case
    using Cons.IH[of "snd (download_one api dp port att fs)"]
    by (cases "fst (download_one api dp port att fs)")
       (simp_all add: successes_def failures_def List.map_filter_simps)
qed

text \<open>
  C8. The loop records one outcome per attachment: the successes and the failures it returns
  are those of the per-attachment runs, every attachment is in exactly one of the two lists,
  and each list keeps the attachments in their original order.
\<close>

theorem one_outcome_per_attachment:
  assumes "download_loop api dp port atts (fs, [], []) = (fs', downloaded_files, failed_downloads)"
  shows "downloaded_files = successes (outcomes api dp port atts fs) \<and>
         failed_downloads = failures atts (outcomes api dp port atts fs) \<and>
         length (outcomes api dp port atts fs) = length atts \<and>
         length downloaded_files + length failed_downloads = length atts \<and>
         subseq (map original_filename downloaded_files) (map filename_a atts) \<and>
         subseq (map filename_f failed_downloads) (map filename_a atts)"
proof -
  from download_loop_outcomes[of api dp port atts fs "[]" "[]"] assms
  have d: "downloaded_files = successes (outcomes api dp port atts fs)"
    and f: "failed_downloads = failures atts (outcomes api dp port atts fs)"
    by simp_all
  show ?thesis
    unfolding d f
    using length_outcomes count_outcomes successes_subseq failures_subseq by blast
qed

section \<open>Concrete downloads\<close>

text \<open>
  An attachment service that answers 404 for the attachment \<open>gone\<close> and returns the bytes
  \<open>PDF\<close> for every other one; a download directory that already holds \<open>report.pdf\<close>.
\<close>

definition report_att :: attachment where
  "report_att = \<lparr>attachment_id = ''ANGjdJ8'', filename_a = ''report.pdf'',
                  mime_type = ''application/pdf'', size_a = 3\<rparr>"

definition demo_api :: attachment_api where
  "demo_api =
     \<lparr>attachments_get =
        (\<lambda>i. if i = ''gone'' then Inl (HttpError 404 ''Not Found'') else Inr (Some (Text ''PDF''))),
      open_wb = (\<lambda>p. None)\<rparr>"

definition fs_one :: fs where
  "fs_one = [(''/srv/downloads/report.pdf'', ''old'')]"

definition fs_two :: fs where
  "fs_two = (''/srv/downloads/report_1.pdf'', ''PDF'') # fs_one"

definition report_1 :: downloaded_file where
  "report_1 = \<lparr>filename_d = ''report_1.pdf'', original_filename = ''report.pdf'',
                download_link = ''http://localhost:8000/report_1.pdf'', file_size = 3,
                mime_type_d = ''application/pdf''\<rparr>"

definition report_2 :: downloaded_file where
  "report_2 = \<lparr>filename_d = ''report_2.pdf'', original_filename = ''report.pdf'',
                download_link = ''http://localhost:8000/report_2.pdf'', file_size = 3,
                mime_type_d = ''application/pdf''\<rparr>"

lemma str_8000: "str_nat 8000 = ''8000''"
  by (simp add: str_nat.simps digit_char_def)

lemma numbered_report:
  "numbered ''report.pdf'' (Suc 0) = ''report_1.pdf''"
  "numbered ''report.pdf'' (Suc (Suc 0)) = ''report_2.pdf''"
  by (simp_all add: numbered_def splitext_def str_nat.simps digit_char_def)

lemma loop_one:
  "uniq_loop fs_one ''/srv/downloads'' ''report.pdf''
     (''report.pdf'', ''/srv/downloads/report.pdf'', 1) =
   (''report_1.pdf'', ''/srv/downloads/report_1.pdf'', 2)"
  by (simp add: uniq_loop.simps Let_def fs_one_def path_exists_def numbered_report path_join_def)

lemma loop_two:
  "uniq_loop fs_two ''/srv/downloads'' ''report.pdf''
     (''report.pdf'', ''/srv/downloads/report.pdf'', 1) =
   (''report_2.pdf'', ''/srv/downloads/report_2.pdf'', 3)"
  by (simp add: uniq_loop.simps Let_def fs_two_def fs_one_def path_exists_def numbered_report path_join_def)

lemma quote_report:
  "quote ''report_1.pdf'' = ''report_1.pdf''" "quote ''report_2.pdf'' = ''report_2.pdf''"
  by (simp_all add: quote_def always_safe_def)

lemma first_download:
  "download_one demo_api ''/srv/downloads'' 8000 report_att fs_one = (Inr report_1, fs_two)"
  unfolding download_one_def
  by (simp add: demo_api_def report_att_def b64decode_def path_join_def loop_one[unfolded One_nat_def]
        str_8000 quote_report report_1_def fs_two_def)

lemma second_download:
  "download_one demo_api ''/srv/downloads'' 8000 report_att fs_two =
     (Inr report_2, (''/srv/downloads/report_2.pdf'', ''PDF'') # fs_two)"
  unfolding download_one_def
  by (simp add: demo_api_def report_att_def b64decode_def path_join_def loop_two[unfolded One_nat_def]
        str_8000 quote_report report_2_def)

theorem collision_appends_counter_witness:
  "path_exists fs_one (path_join ''/srv/downloads'' (filename_a report_att)) \<and>
   download_one demo_api ''/srv/downloads'' 8000 report_att fs_one = (Inr report_1, fs_two) \<and>
   path_exists fs_two (path_join ''/srv/downloads'' (filename_a report_att)) \<and>
   download_one demo_api ''/srv/downloads'' 8000 report_att fs_two =
     (Inr report_2, (''/srv/downloads/report_2.pdf'', ''PDF'') # fs_two) \<and>
   snd (splitext (filename_d report_1)) = snd (splitext (filename_a report_att)) \<and>
   snd (splitext (filename_d report_2)) = snd (splitext (filename_a report_att)) \<and>
   \<not> path_exists fs_one (path_join ''/srv/downloads'' (filename_d report_1)) \<and>
   \<not> path_exists fs_two (path_join ''/srv/downloads'' (filename_d report_2))"
proof -
  have h1: "path_exists fs_one (path_join ''/srv/downloads'' (filename_a report_att))"
    by (simp add: path_exists_def fs_one_def path_join_def report_att_def)
  have h2: "path_exists fs_two (path_join ''/srv/downloads'' (filename_a report_att))"
    by (simp add: path_exists_def fs_two_def fs_one_def path_join_def report_att_def)
  show ?thesis
    using h1 h2 first_download second_download
      collision_appends_counter[OF h1 first_download]
      collision_appends_counter[OF h2 second_download]
    by blast
qed

definition att_a :: attachment where
  "att_a = \<lparr>attachment_id = ''a1'', filename_a = ''a.txt'', mime_type = ''text/plain'', size_a = 3\<rparr>"

definition att_b :: attachment where
  "att_b = \<lparr>attachment_id = ''gone'', filename_a = ''b.txt'', mime_type = ''text/plain'', size_a = 3\<rparr>"

definition att_c :: attachment where
  "att_c = \<lparr>attachment_id = ''c3'', filename_a = ''c.txt'', mime_type = ''text/plain'', size_a = 3\<rparr>"

definition file_a :: downloaded_file where
  "file_a = \<lparr>filename_d = ''a.txt'', original_filename = ''a.txt'',
              download_link = ''http://localhost:8000/a.txt'', file_size = 3,
              mime_type_d = ''text/plain''\<rparr>"

definition file_c :: downloaded_file where
  "file_c = \<lparr>filename_d = ''c.txt'', original_filename = ''c.txt'',
              download_link = ''http://localhost:8000/c.txt'', file_size = 3,
              mime_type_d = ''text/plain''\<rparr>"

lemma quote_txt: "quote ''a.txt'' = ''a.txt''" "quote ''c.txt'' = ''c.txt''"
  by (simp_all add: quote_def always_safe_def)

lemma download_a:
  "download_one demo_api ''/srv/downloads'' 8000 att_a [] = (Inr file_a, [(''/srv/downloads/a.txt'', ''PDF'')])"
  unfolding download_one_def
  by (simp add: demo_api_def att_a_def b64decode_def path_join_def uniq_loop.simps path_exists_def
        str_8000 quote_txt file_a_def)

lemma download_b:
  "download_one demo_api ''/srv/downloads'' 8000 att_b fs = (Inl (HttpError 404 ''Not Found''), fs)"
  unfolding download_one_def by (simp add: demo_api_def att_b_def)

lemma download_c:
  "download_one demo_api ''/srv/downloads'' 8000 att_c [(''/srv/downloads/a.txt'', ''PDF'')] =
     (Inr file_c, [(''/srv/downloads/c.txt'', ''PDF''), (''/srv/downloads/a.txt'', ''PDF'')])"
  unfolding download_one_def
  by (simp add: demo_api_def att_c_def b64decode_def path_join_def uniq_loop.simps path_exists_def
        str_8000 quote_txt file_c_def)

lemma name_b: "filename_a att_b = ''b.txt''"
  by (simp add: att_b_def)

theorem one_outcome_per_attachment_witness:
  "download_loop demo_api ''/srv/downloads'' 8000 [att_a, att_b, att_c] ([], [], []) =
     ([(''/srv/downloads/c.txt'', ''PDF''), (''/srv/downloads/a.txt'', ''PDF'')],
      [file_a, file_c], [\<lparr>filename_f = ''b.txt'', error_f = ''Not Found''\<rparr>]) \<and>
   length [file_a, file_c] + length [\<lparr>filename_f = ''b.txt'', error_f = ''Not Found''\<rparr>] =
     length [att_a, att_b, att_c] \<and>
   subseq (map original_filename [file_a, file_c]) (map filename_a [att_a, att_b, att_c]) \<and>
   subseq (map filename_f [\<lparr>filename_f = ''b.txt'', error_f = ''Not Found''\<rparr>])
     (map filename_a [att_a, att_b, att_c])"
proof -
  have h: "download_loop demo_api ''/srv/downloads'' 8000 [att_a, att_b, att_c] ([], [], []) =
     ([(''/srv/downloads/c.txt'', ''PDF''), (''/srv/downloads/a.txt'', ''PDF'')],
      [file_a, file_c], [\<lparr>filename_f = ''b.txt'', error_f = ''Not Found''\<rparr>])"
    by (simp add: download_a download_b download_c name_b)
  show ?thesis
    using h one_outcome_per_attachment[OF h] by blast
qed

section \<open>The tools\<close>

text \<open>
  A text is the list of the code points of a Python \<open>str\<close> (code points up to 255).
  \<open>isspace\<close> is \<open>str.isspace\<close> on them, which is also what \<open>\s\<close> matches; \<open>strip\<close> is
  \<open>str.strip()\<close>.
\<close>

definition whitespace :: string where
  "whitespace =
     [CHR 0x09, CHR 0x0A, CHR 0x0B, CHR 0x0C, CHR 0x0D, CHR 0x1C, CHR 0x1D, CHR 0x1E, CHR 0x1F,
      CHR 0x20, CHR 0x85, CHR 0xA0]"

definition isspace :: "char \<Rightarrow> bool" where
  "isspace c = (c \<in> set whitespace)"

definition strip :: "string \<Rightarrow> string" where
  "strip s = rev (dropWhile isspace (rev (dropWhile isspace s)))"

text \<open>
  \<open>re.sub(r'\n\s*\n+', '\n\n', text)\<close>: the text is scanned from the left. At a newline,
  \<open>\s*\<close> first takes the whole run of whitespace after it and then gives characters back
  until a newline follows, so the match ends with the last newline of that run (when the
  run has one) and is replaced by two newlines; the scan goes on behind the match. Any
  other character is copied.
\<close>

definition after_last_newline :: "string \<Rightarrow> string" where
  "after_last_newline run = rev (takeWhile (\<lambda>c. c \<noteq> CHR 0x0A) (rev run))"

lemma takeWhile_shorter: "x \<in> set xs \<Longrightarrow> \<not> P x \<Longrightarrow> length (takeWhile P xs) < length xs"
  by (induction xs) (auto simp: less_Suc_eq_le length_takeWhile_le)

lemma after_last_newline_shorter:
  "CHR 0x0A \<in> set run \<Longrightarrow> length (after_last_newline run) < length run"
  using takeWhile_shorter[of "CHR 0x0A" "rev run" "\<lambda>c. c \<noteq> CHR 0x0A"]
  by (simp add: after_last_newline_def)

function re_sub :: "string \<Rightarrow> string" where
  "re_sub [] = []"
| "re_sub (c # cs) =
     (if c = CHR 0x0A \<and> CHR 0x0A \<in> set (takeWhile isspace cs)
      then [CHR 0x0A, CHR 0x0A] @
           re_sub (after_last_newline (takeWhile isspace cs) @ dropWhile isspace cs)
      else c # re_sub cs)"
  by pat_completeness auto
termination
proof (relation "measure length")
  show "wf (measure length)" by simp
next
  fix c :: char and cs :: string
  assume "c = CHR 0x0A \<and> CHR 0x0A \<in> set (takeWhile isspace cs)"
  then have "length (after_last_newline (takeWhile isspace cs)) < length (takeWhile isspace cs)"
    by (intro after_last_newline_shorter) simp
  moreover have "length (takeWhile isspace cs) + length (dropWhile isspace cs) = length cs"
    by (metis length_append takeWhile_dropWhile_id)
  ultimately show "(after_last_newline (takeWhile isspace cs) @ dropWhile isspace cs, c # cs) \<in> measure length"
    by simp
next
  fix c :: char and cs :: string
  show "(cs, c # cs) \<in> measure length" by simp
qed

declare re_sub.simps(2) [simp del]

text \<open>
  \<open>BeautifulSoup(html, "html.parser").get_text()\<close> is a call into a library and stays a
  parameter. \<open>html_to_text\<close> is the tools' expression
  \<open>re.sub(r'\n\s*\n+', '\n\n', soup.get_text()).strip()\<close>; \<open>or_placeholder\<close> is the value
  stored under \<open>body\<close>.
\<close>

record textlib =
  get_text :: "string \<Rightarrow> string"

definition html_to_text :: "textlib \<Rightarrow> string \<Rightarrow> string" where
  "html_to_text lib html = strip (re_sub (get_text lib html))"

definition or_placeholder :: "string \<Rightarrow> string" where
  "or_placeholder body_text = (if body_text \<noteq> [] then body_text else ''No message body found.'')"

text \<open>
  \<open>next((h['value'] for h in headers if h['name'].lower() == name), default)\<close>, a header
  being a pair of name and value; \<open>header_opt\<close> is the case \<open>default = None\<close>. \<open>if_truthy\<close> is
  an entry that is added to the result only when its value is true.
\<close>

definition lower_char :: "char \<Rightarrow> char" where
  "lower_char c =
     (let n = (of_char c :: nat) in if 65 \<le> n \<and> n \<le> 90 then char_of (n + 32) else c)"

definition header_opt :: "(string \<times> string) list \<Rightarrow> string \<Rightarrow> string option" where
  "header_opt hs name = map_option snd (find (\<lambda>h. map lower_char (fst h) = name) hs)"

definition header :: "(string \<times> string) list \<Rightarrow> string \<Rightarrow> string \<Rightarrow> string" where
  "header hs name dflt = (case header_opt hs name of None \<Rightarrow> dflt | Some v \<Rightarrow> v)"

definition if_truthy :: "string option \<Rightarrow> string option" where
  "if_truthy v = (if truthy v then v else None)"

text \<open>
  The Gmail service as the tools use it: what \<open>build\<close> raises, the \<open>messages\<close> entry of the
  result of \<open>list(...).execute()\<close> (message ids), and \<open>get(...).execute()\<close>. Of a message only
  the payload is modelled; entries copied from the message with a default are left out.
\<close>

record message =
  payload :: "part option"

record gmail_api =
  build_gmail :: "exn option"
  messages_list :: "int \<Rightarrow> exn + string list option"
  messages_get :: "string \<Rightarrow> exn + message"

subsection \<open>\<open>get_latest_emails\<close>\<close>

text \<open>
  \<open>scan_parts\<close> is the loop over \<open>payload['parts']\<close>; a subscript on a missing key raises.
  \<open>latest_body\<close> is the value stored under \<open>body\<close>. The function has no \<open>try\<close>: whatever a
  call raises leaves the function.
\<close>

fun scan_parts ::
  "part list \<Rightarrow> string option \<times> string option \<Rightarrow> exn + (string option \<times> string option)" where
  "scan_parts [] st = Inr st"
| "scan_parts (p # ps) (plain_text_body, html_body) =
     (case mimeType p of
        None \<Rightarrow> Inl (KeyError ''mimeType'')
      | Some mt \<Rightarrow>
          if mt = ''text/plain'' then
            (case body p of
               None \<Rightarrow> Inl (KeyError ''body'')
             | Some b \<Rightarrow>
                 (case data b of
                    None \<Rightarrow> scan_parts ps (plain_text_body, html_body)
                  | Some d \<Rightarrow>
                      (case b64decode d of
                         Inl e \<Rightarrow> Inl e
                       | Inr s \<Rightarrow> scan_parts ps (Some s, html_body))))
          else if mt = ''text/html'' then
            (case body p of
               None \<Rightarrow> Inl (KeyError ''body'')
             | Some b \<Rightarrow>
                 (case data b of
                    None \<Rightarrow> scan_parts ps (plain_text_body, html_body)
                  | Some d \<Rightarrow>
                      (case b64decode d of
                         Inl e \<Rightarrow> Inl e
                       | Inr s \<Rightarrow> scan_parts ps (plain_text_body, Some s))))
          else scan_parts ps (plain_text_body, html_body))"

definition latest_body :: "textlib \<Rightarrow> part \<Rightarrow> exn + string" where
  "latest_body lib p =
     (case parts p of
        Some ps \<Rightarrow>
          (case scan_parts ps (None, None) of
             Inl e \<Rightarrow> Inl e
           | Inr (plain_text_body, html_body) \<Rightarrow>
               Inr (or_placeholder
                 (if truthy html_body then html_to_text lib (the html_body)
                  else if truthy plain_text_body then the plain_text_body
                  else [])))
      | None \<Rightarrow>
          (case body p of
             None \<Rightarrow> Inl (KeyError ''body'')
           | Some b \<Rightarrow>
               (case data b of
                  None \<Rightarrow> Inr (or_placeholder [])
                | Some d \<Rightarrow>
                    (case b64decode d of
                       Inl e \<Rightarrow> Inl e
                     | Inr s \<Rightarrow> Inr (or_placeholder s)))))"

record email_entry =
  id_e :: string
  date_e :: string
  from_e :: string
  to_e :: string
  subject_e :: string
  body_e :: string

definition latest_email :: "gmail_api \<Rightarrow> textlib \<Rightarrow> string \<Rightarrow> exn + email_entry" where
  "latest_email api lib msg_id =
     (case messages_get api msg_id of
        Inl e \<Rightarrow> Inl e
      | Inr msg \<Rightarrow>
          (case payload msg of
             None \<Rightarrow> Inl (KeyError ''payload'')
           | Some p \<Rightarrow>
               (case headers p of
                  None \<Rightarrow> Inl (KeyError ''headers'')
                | Some hs \<Rightarrow>
                    (case latest_body lib p of
                       Inl e \<Rightarrow> Inl e
                     | Inr email_body \<Rightarrow>
                         Inr \<lparr>id_e = msg_id,
                               date_e = header hs ''date'' ''(Unknown Date)'',
                               from_e = header hs ''from'' ''(Unknown Sender)'',
                               to_e = header hs ''to'' ''(Unknown Recipient)'',
                               subject_e = header hs ''subject'' ''(No Subject)'',
                               body_e = email_body\<rparr>))))"

fun latest_loop :: "gmail_api \<Rightarrow> textlib \<Rightarrow> string list \<Rightarrow> email_entry list \<Rightarrow> exn + email_entry list" where
  "latest_loop api lib [] emails = Inr emails"
| "latest_loop api lib (msg_id # messages) emails =
     (case latest_email api lib msg_id of
        Inl e \<Rightarrow> Inl e
      | Inr entry \<Rightarrow> latest_loop api lib messages (emails @ [entry]))"

datatype latest_result = Status string | Emails nat "email_entry list"

definition get_latest_emails ::
  "cred_env \<Rightarrow> gmail_api \<Rightarrow> textlib \<Rightarrow> int \<Rightarrow> cred_state \<Rightarrow> (exn + latest_result) \<times> cred_state" where
  "get_latest_emails env api lib n s =
     (case get_credentials ''token.json'' env s of
        (Inl e, s') \<Rightarrow> (Inl (raw e), s')
      | (Inr creds, s') \<Rightarrow>
          (case build_gmail api of
             Some e \<Rightarrow> (Inl e, s')
           | None \<Rightarrow>
               (case messages_list api n of
                  Inl e \<Rightarrow> (Inl e, s')
                | Inr results \<Rightarrow>
                    (case (case results of None \<Rightarrow> [] | Some ms \<Rightarrow> ms) of
                       [] \<Rightarrow> (Inr (Status ''No emails found.''), s')
                     | m # ms \<Rightarrow>
                         (case latest_loop api lib (m # ms) [] of
                            Inl e \<Rightarrow> (Inl e, s')
                          | Inr emails \<Rightarrow> (Inr (Emails (length emails) emails), s'))))))"

subsection \<open>\<open>get_email_details\<close>\<close>

text \<open>
  \<open>body_text\<close> is the choice between the two captured bodies, \<open>details_body\<close> the value stored
  under \<open>body\<close>. Credentials and \<open>build\<close> come before the \<open>try\<close>; the rest is inside it.
\<close>

definition body_text :: "textlib \<Rightarrow> string \<times> string \<Rightarrow> string" where
  "body_text lib st =
     (case st of
        (email_body_plain, email_body_html) \<Rightarrow>
          if email_body_html \<noteq> [] then html_to_text lib email_body_html
          else if email_body_plain \<noteq> [] then email_body_plain
          else [])"

definition details_body :: "textlib \<Rightarrow> part \<Rightarrow> exn + string" where
  "details_body lib p =
     (case extract_body_recursive p ([], []) of
        Inl e \<Rightarrow> Inl e
      | Inr st \<Rightarrow> Inr (or_placeholder (body_text lib st)))"

definition body_attachment_id :: "part \<Rightarrow> string option" where
  "body_attachment_id p = (case body p of None \<Rightarrow> None | Some b \<Rightarrow> attachmentId b)"

definition body_size :: "part \<Rightarrow> int" where
  "body_size p =
     (case body p of None \<Rightarrow> 0 | Some b \<Rightarrow> (case size_b b of None \<Rightarrow> 0 | Some n \<Rightarrow> n))"

fun details_attachments :: "part \<Rightarrow> attachment list"
  and details_attachments_parts :: "part list \<Rightarrow> attachment list"
where
  "details_attachments (Part mt fn hs b ps) =
     (case (fn, body_attachment_id (Part mt fn hs b ps)) of
        (Some name, Some aid) \<Rightarrow>
          if name \<noteq> [] \<and> aid \<noteq> [] then
            [\<lparr>attachment_id = aid, filename_a = name,
              mime_type = (case mt of None \<Rightarrow> ''unknown'' | Some m \<Rightarrow> m),
              size_a = body_size (Part mt fn hs b ps)\<rparr>]
          else []
      | _ \<Rightarrow> []) @
     (case ps of None \<Rightarrow> [] | Some l \<Rightarrow> details_attachments_parts l)"
| "details_attachments_parts [] = []"
| "details_attachments_parts (p # l) = details_attachments p @ details_attachments_parts l"

record email_details =
  id_d :: string
  date_d :: string
  from_d :: string
  to_d :: string
  subject_d :: string
  body_d :: string
  has_attachments :: bool
  attachment_count :: nat
  attachments_d :: "attachment list"
  cc_d :: "string option"
  bcc_d :: "string option"
  message_id_d :: "string option"
  body_html_d :: "string option"

datatype details_result = ErrorDict string | Details email_details

definition details_block :: "gmail_api \<Rightarrow> textlib \<Rightarrow> string \<Rightarrow> exn + email_details" where
  "details_block api lib email_id =
     (case messages_get api email_id of
        Inl e \<Rightarrow> Inl e
      | Inr msg \<Rightarrow>
          (case payload msg of
             None \<Rightarrow> Inl (KeyError ''payload'')
           | Some p \<Rightarrow>
               (let hs = (case headers p of None \<Rightarrow> [] | Some l \<Rightarrow> l) in
                case extract_body_recursive p ([], []) of
                  Inl e \<Rightarrow> Inl e
                | Inr st \<Rightarrow>
                    (let attachments = details_attachments p in
                     Inr \<lparr>id_d = email_id,
                           date_d = header hs ''date'' ''(Unknown Date)'',
                           from_d = header hs ''from'' ''(Unknown Sender)'',
                           to_d = header hs ''to'' ''(Unknown Recipient)'',
                           subject_d = header hs ''subject'' ''(No Subject)'',
                           body_d = or_placeholder (body_text lib st),
                           has_attachments = (length attachments > 0),
                           attachment_count = length attachments,
                           attachments_d = attachments,
                           cc_d = if_truthy (header_opt hs ''cc''),
                           bcc_d = if_truthy (header_opt hs ''bcc''),
                           message_id_d = if_truthy (header_opt hs ''message-id''),
                           body_html_d = (if snd st \<noteq> [] then Some (snd st) else None)\<rparr>))))"

definition get_email_details ::
  "cred_env \<Rightarrow> gmail_api \<Rightarrow> textlib \<Rightarrow> string \<Rightarrow> cred_state \<Rightarrow> (exn + details_result) \<times> cred_state" where
  "get_email_details env api lib email_id s =
     (case get_credentials ''token.json'' env s of
        (Inl e, s') \<Rightarrow> (Inl (raw e), s')
      | (Inr creds, s') \<Rightarrow>
          (case build_gmail api of
             Some e \<Rightarrow> (Inl e, s')
           | None \<Rightarrow>
               (case details_block api lib email_id of
                  Inr d \<Rightarrow> (Inr (Details d), s')
                | Inl (HttpError status text) \<Rightarrow>
                    (Inr (ErrorDict (''Gmail API error: '' @ text)), s')
                | Inl (Exception text) \<Rightarrow>
                    (Inr (ErrorDict (''Unexpected error: '' @ text)), s'))))"

subsection \<open>\<open>delete_event\<close>\<close>

text \<open>The whole body is inside \<open>try\<close> (\<open>delete_try\<close>); the handlers map every exception to a result.\<close>

record calendar_api =
  build_calendar :: "exn option"
  events_delete :: "string \<Rightarrow> string \<Rightarrow> exn option"

record delete_result =
  status :: string
  message :: string
  details :: "string option"
  event_id :: string

definition delete_try ::
  "cred_env \<Rightarrow> calendar_api \<Rightarrow> string \<Rightarrow> string \<Rightarrow> cred_state \<Rightarrow> (exn + delete_result) \<times> cred_state" where
  "delete_try env api eid calendar_id s =
     (case get_credentials ''token_calendar.json'' env s of
        (Inl e, s') \<Rightarrow> (Inl (raw e), s')
      | (Inr creds, s') \<Rightarrow>
          (case build_calendar api of
             Some e \<Rightarrow> (Inl e, s')
           | None \<Rightarrow>
               (case events_delete api calendar_id eid of
                  Some e \<Rightarrow> (Inl e, s')
                | None \<Rightarrow>
                    (Inr \<lparr>status = ''success'', message = ''Event deleted successfully'',
                          details = None, event_id = eid\<rparr>, s'))))"

definition delete_event ::
  "cred_env \<Rightarrow> calendar_api \<Rightarrow> string \<Rightarrow> string \<Rightarrow> cred_state \<Rightarrow> (exn + delete_result) \<times> cred_state" where
  "delete_event env api eid calendar_id s =
     (case delete_try env api eid calendar_id s of
        (Inr r, s') \<Rightarrow> (Inr r, s')
      | (Inl (HttpError code text), s') \<Rightarrow>
          if code = 404 then
            (Inr \<lparr>status = ''error'', message = ''Event not found'',
                  details = Some (''No event with ID '' @ [CHR 0x27] @ eid @ [CHR 0x27] @
                                  '' exists in the calendar''),
                  event_id = eid\<rparr>, s')
          else if code = 410 then
            (Inr \<lparr>status = ''error'', message = ''Event already deleted'',
                  details = Some (''Event with ID '' @ [CHR 0x27] @ eid @ [CHR 0x27] @
                                  '' was already deleted''),
                  event_id = eid\<rparr>, s')
          else
            (Inr \<lparr>status = ''error'', message = ''Failed to delete event'',
                  details = Some text, event_id = eid\<rparr>, s')
      | (Inl (Exception text), s') \<Rightarrow>
          (Inr \<lparr>status = ''error'', message = ''An unexpected error occurred'',
                details = Some text, event_id = eid\<rparr>, s'))"

lemma delete_try_success:
  "delete_try env api eid calendar_id s = (Inr r, s') \<Longrightarrow>
   r = \<lparr>status = ''success'', message = ''Event deleted successfully'',
        details = None, event_id = eid\<rparr>"
  by (auto simp: delete_try_def split: prod.splits sum.splits option.splits)

lemma delete_event_returns:
  "\<exists>r. fst (delete_event env api eid calendar_id s) = Inr r \<and>
       event_id r = eid \<and> (status r = ''success'' \<or> status r = ''error'' \<and> message r \<noteq> [])"
  by (auto simp: delete_event_def split: prod.splits sum.splits exn.splits
           dest: delete_try_success)

section \<open>Failures of remote calls\<close>

text \<open>
  \<open>lib0\<close> is \<open>get_text\<close> on text that has no markup: the parser returns such text unchanged.
\<close>

definition lib0 :: textlib where
  "lib0 = \<lparr>get_text = (\<lambda>s. s)\<rparr>"

definition failing_api :: gmail_api where
  "failing_api =
     \<lparr>build_gmail = None,
      messages_list = (\<lambda>n. Inl (HttpError 500 ''Backend Error'')),
      messages_get = (\<lambda>i. Inl (HttpError 404 ''Not Found''))\<rparr>"

text \<open>
  C3 asks that no failure of a remote call leaves a tool function. \<open>delete_event\<close> always
  returns a result (\<open>delete_event_returns\<close>), but \<open>get_latest_emails\<close> has no handler: with
  valid cached credentials and a \<open>list\<close> call that answers 500, the \<open>HttpError\<close> leaves the
  function.
\<close>

theorem list_failure_escapes:
  "get_latest_emails revoked_env failing_api lib n (token_file (Some ''cached'')) =
     (Inl (HttpError 500 ''Backend Error''), token_file (Some ''cached''))"
  by (simp add: get_latest_emails_def get_credentials_def load_token_def token_file_def
        revoked_env_def cached_record_def failing_api_def valid_def)

section \<open>Which body a caller sees\<close>

text \<open>
  The top-level parts of a payload that \<open>get_latest_emails\<close> can read without a missing key,
  and the \<open>data\<close> entries it reads from them.
\<close>

definition keyed :: "part \<Rightarrow> bool" where
  "keyed p =
     (mimeType p \<noteq> None \<and>
      (mimeType p = Some ''text/plain'' \<or> mimeType p = Some ''text/html'' \<longrightarrow> body p \<noteq> None))"

definition top_plain :: "part list \<Rightarrow> decoded list" where
  "top_plain ps = List.map_filter node_plain ps"

definition top_html :: "part list \<Rightarrow> decoded list" where
  "top_html ps = List.map_filter node_html ps"

definition last_or :: "string option \<Rightarrow> string list \<Rightarrow> string option" where
  "last_or d xs = (if xs = [] then d else Some (last xs))"

lemma last_or_Cons: "last_or d (x # xs) = last_or (Some x) xs"
  by (simp add: last_or_def)

lemma scan_parts_last:
  "list_all keyed ps \<Longrightarrow>
   scan_parts ps (pl, ht) =
     (if Undecodable \<in> set (top_plain ps @ top_html ps) then Inl (Exception ''decode'')
      else Inr (last_or pl (texts (top_plain ps)), last_or ht (texts (top_html ps))))"
proof (induction ps arbitrary: pl ht)
  case Nil
  show ?case by (simp add: top_plain_def top_html_def texts_def List.map_filter_simps last_or_def)
next
  case (Cons p ps)
  from Cons.prems have k: "keyed p" and ks: "list_all keyed ps" by simp_all
  from k obtain mt where mt: "mimeType p = Some mt" by (auto simp: keyed_def)
  note IH = Cons.IH[OF ks]
  show ?case
  proof (cases "mt = ''text/plain''")
    case True
    with k mt obtain b where b: "body p = Some b" by (auto simp: keyed_def)
    have np: "node_plain p = data b" "node_html p = None"
      using True mt b by (simp_all add: node_plain_def node_html_def body_data_def)
    show ?thesis
    proof (cases "data b")
      case None
      with True mt b np show ?thesis
        by (simp add: IH top_plain_def top_html_def List.map_filter_simps)
    next
      case (Some d)
      with True mt b np show ?thesis
        by (cases d)
           (simp_all add: IH top_plain_def top_html_def List.map_filter_simps b64decode_def
              texts_def last_or_Cons)
    qed
  next
    case False
    note nplain = this
    show ?thesis
    proof (cases "mt = ''text/html''")
      case True
      with k mt obtain b where b: "body p = Some b" by (auto simp: keyed_def)
      have np: "node_plain p = None" "node_html p = data b"
        using True mt b by (simp_all add: node_plain_def node_html_def body_data_def)
      show ?thesis
      proof (cases "data b")
        case None
        with True mt b np show ?thesis
          by (simp add: IH top_plain_def top_html_def List.map_filter_simps)
      next
        case (Some d)
        with True mt b np show ?thesis
          by (cases d)
             (simp_all add: IH top_plain_def top_html_def List.map_filter_simps b64decode_def
                texts_def last_or_Cons)
      qed
    next
      case False
      have np: "node_plain p = None" "node_html p = None"
        using False nplain mt by (simp_all add: node_plain_def node_html_def)
      with False nplain mt show ?thesis
        by (simp add: IH top_plain_def top_html_def List.map_filter_simps)
    qed
  qed
qed

lemma truthy_last_or: "truthy (last_or None xs) = (last ([] # xs) \<noteq> [])"
  by (simp add: truthy_def last_or_def)

lemma the_last_or: "xs \<noteq> [] \<Longrightarrow> the (last_or None xs) = last ([] # xs)"
  by (simp add: last_or_def)

lemma last_nonempty: "last ([] # xs) \<noteq> [] \<Longrightarrow> xs \<noteq> []"
  by (cases xs) auto

lemma last_empty: "last ([] # xs) = [] \<Longrightarrow> \<not> truthy (last_or None xs)"
  by (simp add: truthy_last_or)

lemma details_body_last:
  "details_body lib t =
     (if Undecodable \<in> set (plain_data t @ html_data t) then Inl (Exception ''decode'')
      else Inr (or_placeholder
             (if last ([] # texts (html_data t)) \<noteq> []
              then html_to_text lib (last ([] # texts (html_data t)))
              else last ([] # texts (plain_data t)))))"
  unfolding details_body_def extract_body_as_visit visit_all_last plain_data_def html_data_def
    node_plain_def[abs_def] node_html_def[abs_def]
  by (simp add: body_text_def)

lemma latest_body_last:
  assumes "list_all keyed ps"
  shows "latest_body lib (Part mt fn hs b (Some ps)) =
     (if Undecodable \<in> set (top_plain ps @ top_html ps) then Inl (Exception ''decode'')
      else Inr (or_placeholder
             (if last ([] # texts (top_html ps)) \<noteq> []
              then html_to_text lib (last ([] # texts (top_html ps)))
              else last ([] # texts (top_plain ps)))))"
proof (cases "Undecodable \<in> set (top_plain ps @ top_html ps)")
  case True
  then show ?thesis
    using scan_parts_last[OF assms, of None None] by (simp add: latest_body_def)
next
  case False
  note ok = this
  have sc: "scan_parts ps (None, None) =
      Inr (last_or None (texts (top_plain ps)), last_or None (texts (top_html ps)))"
    using scan_parts_last[OF assms, of None None] ok by simp
  show ?thesis
  proof (cases "last ([] # texts (top_html ps)) \<noteq> []")
    case True
    then have "texts (top_html ps) \<noteq> []" by (rule last_nonempty)
    with True ok show ?thesis
      by (simp add: latest_body_def sc truthy_last_or the_last_or)
  next
    case False
    note nh = this
    show ?thesis
    proof (cases "last ([] # texts (top_plain ps)) \<noteq> []")
      case True
      then have "texts (top_plain ps) \<noteq> []" by (rule last_nonempty)
      with True nh ok show ?thesis
        by (simp add: latest_body_def sc truthy_last_or the_last_or)
    next
      case False
      with nh ok show ?thesis
        by (simp add: latest_body_def sc truthy_last_or)
    qed
  qed
qed

definition plain_and_empty_html :: part where
  "plain_and_empty_html =
     Part (Some ''multipart/alternative'') None (Some [(''Subject'', ''Hi'')]) None
       (Some [leaf ''text/plain'' ''Hi from plain'', leaf ''text/html'' ''''])"

definition alternative :: part where
  "alternative =
     Part (Some ''multipart/alternative'') None None None
       (Some [leaf ''text/plain'' ''Hi from plain'', leaf ''text/html'' ''Hi from html''])"

definition nested_alternative :: part where
  "nested_alternative =
     Part (Some ''multipart/mixed'') None (Some [(''Subject'', ''Hi'')]) None (Some [alternative])"

text \<open>
  What the two fixed stages leave: no three newlines in a row, and no whitespace at either
  end.
\<close>

lemma nl_space: "isspace (CHR 0x0A)"
  by (simp add: isspace_def whitespace_def)

lemma strip_ends:
  "strip s = [] \<or> (\<not> isspace (hd (strip s)) \<and> \<not> isspace (last (strip s)))"
proof (cases "strip s = []")
  case True
  then show ?thesis by simp
next
  case False
  let ?a = "dropWhile isspace s"
  let ?b = "dropWhile isspace (rev ?a)"
  from False have b: "?b \<noteq> []" by (simp add: strip_def)
  then have h: "\<not> isspace (hd ?b)" by (rule hd_dropWhile)
  have l: "last (strip s) = hd ?b" using b by (simp add: strip_def last_rev)
  have a: "?a \<noteq> []"
  proof
    assume "?a = []"
    then have "?b = []" by (simp only: rev.simps(1) dropWhile.simps(1))
    with b show False by (simp only:)
  qed
  then have ha: "\<not> isspace (hd ?a)" by (rule hd_dropWhile)
  have "rev ?a = takeWhile isspace (rev ?a) @ ?b" by simp
  then have "?a = rev ?b @ rev (takeWhile isspace (rev ?a))"
    by (metis rev_append rev_rev_ident)
  then have "hd ?a = hd (rev ?b)" using b by (metis hd_append2 rev_is_Nil_conv)
  then have "\<not> isspace (hd (strip s))" using ha by (simp add: strip_def)
  with l h show ?thesis by simp
qed

lemma strip_sublist: "sublist (strip s) s"
proof -
  let ?a = "dropWhile isspace s"
  have 1: "s = takeWhile isspace s @ ?a" by simp
  have "rev ?a = takeWhile isspace (rev ?a) @ dropWhile isspace (rev ?a)" by simp
  then have 2: "?a = strip s @ rev (takeWhile isspace (rev ?a))"
    unfolding strip_def by (metis rev_append rev_rev_ident)
  have "s = takeWhile isspace s @ strip s @ rev (takeWhile isspace (rev ?a))"
    using 1 2 by metis
  then show ?thesis unfolding sublist_def by blast
qed

lemma re_sub_head:
  "s = [] \<or> hd s \<noteq> CHR 0x0A \<Longrightarrow> re_sub s = [] \<or> hd (re_sub s) \<noteq> CHR 0x0A"
  by (cases s) (auto simp: re_sub.simps(2))

lemma triple_Cons:
  "sublist [CHR 0x0A, CHR 0x0A, CHR 0x0A] (c # xs) \<Longrightarrow>
   sublist [CHR 0x0A, CHR 0x0A, CHR 0x0A] xs \<or>
   (c = CHR 0x0A \<and> prefix [CHR 0x0A, CHR 0x0A] xs)"
  by (auto simp: sublist_Cons_right)

lemma after_last_newline_free: "CHR 0x0A \<notin> set (after_last_newline run)"
  unfolding after_last_newline_def
  by (metis (mono_tags, lifting) set_rev set_takeWhileD)

lemma rest_head:
  "after_last_newline (takeWhile isspace cs) @ dropWhile isspace cs = [] \<or>
   hd (after_last_newline (takeWhile isspace cs) @ dropWhile isspace cs) \<noteq> CHR 0x0A"
proof (cases "after_last_newline (takeWhile isspace cs) = []")
  case False
  then have "hd (after_last_newline (takeWhile isspace cs)) \<in> set (after_last_newline (takeWhile isspace cs))"
    by simp
  then have "hd (after_last_newline (takeWhile isspace cs)) \<noteq> CHR 0x0A"
    using after_last_newline_free by metis
  with False show ?thesis by simp
next
  case True
  show ?thesis
  proof (cases "dropWhile isspace cs = []")
    case True
    with \<open>after_last_newline (takeWhile isspace cs) = []\<close> show ?thesis by simp
  next
    case False
    then have "\<not> isspace (hd (dropWhile isspace cs))" by (rule hd_dropWhile)
    then have "hd (dropWhile isspace cs) \<noteq> CHR 0x0A" using nl_space by metis
    with True show ?thesis by simp
  qed
qed

lemma re_sub_no_triple: "\<not> sublist [CHR 0x0A, CHR 0x0A, CHR 0x0A] (re_sub s)"
proof (induction s rule: re_sub.induct)
  case 1
  show ?case by simp
next
  case (2 c cs)
  show ?case
  proof (cases "c = CHR 0x0A \<and> CHR 0x0A \<in> set (takeWhile isspace cs)")
    case True
    let ?rest = "after_last_newline (takeWhile isspace cs) @ dropWhile isspace cs"
    have e: "re_sub (c # cs) = CHR 0x0A # CHR 0x0A # re_sub ?rest"
      using True by (simp add: re_sub.simps(2))
    have ih: "\<not> sublist [CHR 0x0A, CHR 0x0A, CHR 0x0A] (re_sub ?rest)"
      using "2.IH"(1)[OF True] .
    have hd: "re_sub ?rest = [] \<or> hd (re_sub ?rest) \<noteq> CHR 0x0A"
      using rest_head by (rule re_sub_head)
    show ?thesis
    proof
      assume "sublist [CHR 0x0A, CHR 0x0A, CHR 0x0A] (re_sub (c # cs))"
      then have "sublist [CHR 0x0A, CHR 0x0A, CHR 0x0A] (CHR 0x0A # re_sub ?rest) \<or>
          prefix [CHR 0x0A, CHR 0x0A] (CHR 0x0A # re_sub ?rest)"
        unfolding e using triple_Cons by blast
      then have "sublist [CHR 0x0A, CHR 0x0A, CHR 0x0A] (re_sub ?rest) \<or>
          prefix [CHR 0x0A, CHR 0x0A] (re_sub ?rest) \<or> prefix [CHR 0x0A] (re_sub ?rest)"
        using triple_Cons by auto
      with ih hd show False by (cases "re_sub ?rest") auto
    qed
  next
    case False
    have e: "re_sub (c # cs) = c # re_sub cs"
      by (subst re_sub.simps(2)) (rule if_not_P[OF False])
    have ih: "\<not> sublist [CHR 0x0A, CHR 0x0A, CHR 0x0A] (re_sub cs)"
      using "2.IH"(2)[OF False] .
    show ?thesis
    proof
      assume "sublist [CHR 0x0A, CHR 0x0A, CHR 0x0A] (re_sub (c # cs))"
      then have p: "c = CHR 0x0A" "prefix [CHR 0x0A, CHR 0x0A] (re_sub cs)"
        unfolding e using triple_Cons ih by blast+
      with False have nn: "CHR 0x0A \<notin> set (takeWhile isspace cs)" by simp
      have "cs = [] \<or> hd cs \<noteq> CHR 0x0A"
      proof (cases cs)
        case Nil then show ?thesis by simp
      next
        case (Cons d ds)
        with nn nl_space show ?thesis by (cases "d = CHR 0x0A") auto
      qed
      then have "re_sub cs = [] \<or> hd (re_sub cs) \<noteq> CHR 0x0A" by (rule re_sub_head)
      with p(2) show False by (cases "re_sub cs") auto
    qed
  qed
qed

lemma normalised:
  "\<not> sublist [CHR 0x0A, CHR 0x0A, CHR 0x0A] (strip (re_sub s)) \<and>
   (strip (re_sub s) = [] \<or>
    (\<not> isspace (hd (strip (re_sub s))) \<and> \<not> isspace (last (strip (re_sub s)))))"
  using re_sub_no_triple[of s] strip_sublist[of "re_sub s"] strip_ends[of "re_sub s"]
    sublist_order.order_trans by blast

definition padded_alternative :: part where
  "padded_alternative =
     Part (Some ''multipart/alternative'') None None None
       (Some [leaf ''text/plain'' ''Hi from plain'',
              leaf ''text/html'' ''  Hi\<newline>\<newline>\<newline>  \<newline>from html \<newline>''])"

lemma plain_html_text: "html_to_text lib0 ''Hi from html'' = ''Hi from html''"
  by (simp add: html_to_text_def lib0_def re_sub.simps(2) strip_def isspace_def whitespace_def)

lemma padded_html_text:
  "strip (re_sub (get_text lib0 ''  Hi\<newline>\<newline>\<newline>  \<newline>from html \<newline>'')) =
     ''Hi\<newline>\<newline>from html''"
  by (simp add: lib0_def re_sub.simps(2) strip_def isspace_def whitespace_def
        after_last_newline_def)

text \<open>
  C10, as stated, does not hold. By design: the test \<open>if email_body_html\<close> is on the text, so
  a text/html part whose data is empty leaves the plain text as the body. And
  \<open>get_latest_emails\<close> reads the top-level parts only: of a multipart/alternative nested in a
  multipart/mixed it sees neither body, where \<open>get_email_details\<close> returns the HTML text.
\<close>

theorem html_ignored_counterexample:
  "html_data plain_and_empty_html = [Text []] \<and>
   details_body lib0 plain_and_empty_html = Inr ''Hi from plain'' \<and>
   latest_body lib0 plain_and_empty_html = Inr ''Hi from plain'' \<and>
   texts (html_data nested_alternative) = [''Hi from html''] \<and>
   texts (plain_data nested_alternative) = [''Hi from plain''] \<and>
   details_body lib0 nested_alternative = Inr ''Hi from html'' \<and>
   latest_body lib0 nested_alternative = Inr ''No message body found.''"
  by (simp add: plain_and_empty_html_def nested_alternative_def alternative_def leaf_def
        html_data_def plain_data_def texts_def List.map_filter_simps body_data_def
        details_body_def latest_body_def visit_body_def b64decode_def body_text_def
        or_placeholder_def plain_html_text truthy_def)

text \<open>
  C10, amended: in \<open>get_email_details\<close>, when the last text/html part with inline data, in
  pre-order, has non-empty text, the body is derived from that HTML and the plain text is
  ignored: it is the text the parser's \<open>get_text\<close> returns for the markup, in which every
  match of \<open>\n\s*\n+\<close> is replaced by two newlines and whose leading and trailing whitespace
  is removed, so that it has no three newlines in a row and neither starts nor ends with
  whitespace. Otherwise the body is the text of the last text/plain part. In
  \<open>get_latest_emails\<close> the same rule holds of the top-level parts of the payload. An empty
  result is replaced by the placeholder.
\<close>

theorem html_body_preferred:
  "details_body lib t =
     (if Undecodable \<in> set (plain_data t @ html_data t) then Inl (Exception ''decode'')
      else Inr (or_placeholder
             (if last ([] # texts (html_data t)) \<noteq> []
              then strip (re_sub (get_text lib (last ([] # texts (html_data t)))))
              else last ([] # texts (plain_data t))))) \<and>
   (list_all keyed ps \<longrightarrow>
    latest_body lib (Part mt fn hs b (Some ps)) =
      (if Undecodable \<in> set (top_plain ps @ top_html ps) then Inl (Exception ''decode'')
       else Inr (or_placeholder
              (if last ([] # texts (top_html ps)) \<noteq> []
               then strip (re_sub (get_text lib (last ([] # texts (top_html ps)))))
               else last ([] # texts (top_plain ps)))))) \<and>
   \<not> sublist [CHR 0x0A, CHR 0x0A, CHR 0x0A] (strip (re_sub x)) \<and>
   (strip (re_sub x) = [] \<or>
    (\<not> isspace (hd (strip (re_sub x))) \<and> \<not> isspace (last (strip (re_sub x)))))"
  using details_body_last[of lib t] latest_body_last[of ps lib mt fn hs b] normalised[of x]
  unfolding html_to_text_def by blast

theorem html_body_preferred_witness:
  "list_all keyed
     [leaf ''text/plain'' ''Hi from plain'',
      leaf ''text/html'' ''  Hi\<newline>\<newline>\<newline>  \<newline>from html \<newline>''] \<and>
   latest_body lib0 padded_alternative = Inr ''Hi\<newline>\<newline>from html'' \<and>
   details_body lib0 padded_alternative = Inr ''Hi\<newline>\<newline>from html'' \<and>
   \<not> sublist [CHR 0x0A, CHR 0x0A, CHR 0x0A] ''Hi\<newline>\<newline>from html'' \<and>
   \<not> isspace (hd ''Hi\<newline>\<newline>from html'') \<and>
   \<not> isspace (last ''Hi\<newline>\<newline>from html'')"
proof -
  let ?html = "''  Hi\<newline>\<newline>\<newline>  \<newline>from html \<newline>''"
  let ?ps = "[leaf ''text/plain'' ''Hi from plain'', leaf ''text/html'' ?html]"
  have k: "list_all keyed ?ps"
    by (simp add: keyed_def leaf_def)
  have t: "top_html ?ps = [Text ?html]" "top_plain ?ps = [Text ''Hi from plain'']"
    by (simp_all add: top_html_def top_plain_def node_html_def node_plain_def leaf_def
          List.map_filter_simps body_data_def)
  have d: "html_data padded_alternative = [Text ?html]"
    "plain_data padded_alternative = [Text ''Hi from plain'']"
    by (simp_all add: padded_alternative_def html_data_def plain_data_def leaf_def
          List.map_filter_simps body_data_def)
  have n: "strip (re_sub (get_text lib0 ?html)) = ''Hi\<newline>\<newline>from html''"
    by (rule padded_html_text)
  have g: "get_text lib0 ?html = ?html"
    by (simp add: lib0_def)
  note T = html_body_preferred[where lib = lib0 and t = padded_alternative and ps = ?ps
      and mt = "Some ''multipart/alternative''" and fn = None and hs = None and b = None
      and x = ?html]
  have a: "details_body lib0 padded_alternative = Inr ''Hi\<newline>\<newline>from html''"
    using T by (simp add: d texts_def List.map_filter_simps n or_placeholder_def)
  have b: "latest_body lib0 padded_alternative = Inr ''Hi\<newline>\<newline>from html''"
    using T k
    by (simp add: t texts_def List.map_filter_simps n or_placeholder_def padded_alternative_def)
  have c: "\<not> sublist [CHR 0x0A, CHR 0x0A, CHR 0x0A] ''Hi\<newline>\<newline>from html'' \<and>
      \<not> isspace (hd ''Hi\<newline>\<newline>from html'') \<and> \<not> isspace (last ''Hi\<newline>\<newline>from html'')"
    using T n[unfolded g] by simp
  from k a b c show ?thesis by simp
qed

end
